theory Spec2Isabelle
  imports Main "HOL-Library.Multiset" "HOL-Library.Sublist"
begin

section \<open>PDF viewer: the zoom level\<close>

text \<open>
  \<^verbatim>\<open>PDFViewer\<close> keeps one state variable, \<^verbatim>\<open>const [zoom, setZoom] = useState(100)\<close>,
  changed only by the two handlers
  \<^verbatim>\<open>handleZoomIn = () => setZoom((prev) => Math.min(prev + 25, 200))\<close> and
  \<^verbatim>\<open>handleZoomOut = () => setZoom((prev) => Math.max(prev - 25, 50))\<close>.
  The values are small integers, which JavaScript numbers hold exactly, so \<open>int\<close> models them.
\<close>

definition zoom_initial :: int where
  "zoom_initial = 100"

definition handleZoomIn :: "int \<Rightarrow> int" where
  "handleZoomIn prev = min (prev + 25) 200"

definition handleZoomOut :: "int \<Rightarrow> int" where
  "handleZoomOut prev = max (prev - 25) 50"

datatype zoom_click = ZoomIn | ZoomOut

fun apply_zoom :: "int \<Rightarrow> zoom_click \<Rightarrow> int" where
  "apply_zoom z ZoomIn = handleZoomIn z"
| "apply_zoom z ZoomOut = handleZoomOut z"

definition zoom_after :: "zoom_click list \<Rightarrow> int" where
  "zoom_after clicks = foldl apply_zoom zoom_initial clicks"

definition zoom_ok :: "int \<Rightarrow> bool" where
  "zoom_ok z = (50 \<le> z \<and> z \<le> 200 \<and> z mod 25 = 0)"

lemma zoom_ok_initial: "zoom_ok zoom_initial"
  by (simp add: zoom_ok_def zoom_initial_def)

lemma zoom_ok_in: "zoom_ok z \<Longrightarrow> zoom_ok (handleZoomIn z)"
  unfolding zoom_ok_def handleZoomIn_def min_def by presburger

lemma zoom_ok_out: "zoom_ok z \<Longrightarrow> zoom_ok (handleZoomOut z)"
  unfolding zoom_ok_def handleZoomOut_def max_def by presburger

lemma zoom_ok_click: "zoom_ok z \<Longrightarrow> zoom_ok (apply_zoom z c)"
  by (cases c) (simp_all add: zoom_ok_in zoom_ok_out)

lemma zoom_ok_foldl: "zoom_ok z \<Longrightarrow> zoom_ok (foldl apply_zoom z clicks)"
  by (induction clicks arbitrary: z) (simp_all add: zoom_ok_click)

text \<open>
  C10. The zoom level starts at 100; zooming in adds 25 and is capped at 200, zooming out
  subtracts 25 and is floored at 50; after every sequence of zoom clicks the level lies in
  the closed range 50 to 200 and is a multiple of 25.
\<close>

theorem zoom_invariant:
  "zoom_after [] = 100
   \<and> handleZoomIn z = (if z + 25 \<le> 200 then z + 25 else 200)
   \<and> handleZoomOut z = (if 50 \<le> z - 25 then z - 25 else 50)
   \<and> 50 \<le> zoom_after clicks \<and> zoom_after clicks \<le> 200 \<and> 25 dvd zoom_after clicks"
proof -
  have "zoom_ok (zoom_after clicks)"
    unfolding zoom_after_def by (rule zoom_ok_foldl [OF zoom_ok_initial])
  then have "50 \<le> zoom_after clicks \<and> zoom_after clicks \<le> 200 \<and> 25 dvd zoom_after clicks"
    unfolding zoom_ok_def by presburger
  then show ?thesis
    by (simp add: zoom_after_def zoom_initial_def handleZoomIn_def handleZoomOut_def min_def max_def)
qed

section \<open>Chat sidebar: grouping the sessions by date\<close>

text \<open>
  \<^verbatim>\<open>ChatSidebar.groupSessionsByDate\<close>. A \<^verbatim>\<open>Date\<close> is its time value, an integer number of
  milliseconds, or \<open>None\<close> for an Invalid Date (time value NaN). What the JavaScript runtime
  supplies is taken as a parameter, since it depends on the host's time zone:
  \<^item> \<open>parse\<close>: \<^verbatim>\<open>new Date(session.created_at)\<close>, \<open>None\<close> when the string is not a date;
  \<^item> \<open>startOfDay t\<close>: \<^verbatim>\<open>new Date(d.getFullYear(), d.getMonth(), d.getDate())\<close> for a valid \<open>d\<close>;
  \<^item> \<open>addDays t n\<close>: \<^verbatim>\<open>setDate(getDate() + n)\<close> on a copy of the date \<open>t\<close>.
  Every comparison with NaN is false, so an unparsable date falls through to the last branch.
\<close>

record chat_session =
  session_id :: string
  title :: string
  created_at :: string
  message_count :: nat

record calendar =
  parse :: "string \<Rightarrow> int option"
  startOfDay :: "int \<Rightarrow> int"
  addDays :: "int \<Rightarrow> int \<Rightarrow> int"

record grouped =
  today :: "chat_session list"
  yesterday :: "chat_session list"
  lastWeek :: "chat_session list"
  older :: "chat_session list"

definition sessionDay :: "calendar \<Rightarrow> chat_session \<Rightarrow> int option" where
  "sessionDay cal session = map_option (startOfDay cal) (parse cal (created_at session))"

text \<open>\<^verbatim>\<open>sessionDay >= lastWeek\<close>, false when \<^verbatim>\<open>sessionDay\<close> is an Invalid Date.\<close>

definition date_ge :: "int option \<Rightarrow> int \<Rightarrow> bool" where
  "date_ge d t = (case d of None \<Rightarrow> False | Some v \<Rightarrow> t \<le> v)"

text \<open>The body of the \<^verbatim>\<open>forEach\<close>: one \<^verbatim>\<open>push\<close> per session.\<close>

definition place :: "calendar \<Rightarrow> int \<Rightarrow> grouped \<Rightarrow> chat_session \<Rightarrow> grouped" where
  "place cal now g session =
     (let today_t = startOfDay cal now;
          yesterday_t = addDays cal today_t (- 1);
          lastWeek_t = addDays cal today_t (- 7);
          day = sessionDay cal session
      in if day = Some today_t then g\<lparr>today := today g @ [session]\<rparr>
         else if day = Some yesterday_t then g\<lparr>yesterday := yesterday g @ [session]\<rparr>
         else if date_ge day lastWeek_t then g\<lparr>lastWeek := lastWeek g @ [session]\<rparr>
         else g\<lparr>older := older g @ [session]\<rparr>)"

definition grouped_empty :: grouped where
  "grouped_empty = \<lparr>today = [], yesterday = [], lastWeek = [], older = []\<rparr>"

definition groupSessionsByDate :: "calendar \<Rightarrow> int \<Rightarrow> chat_session list \<Rightarrow> grouped" where
  "groupSessionsByDate cal now sessions = foldl (place cal now) grouped_empty sessions"

text \<open>The four branch conditions of the \<^verbatim>\<open>if\<close> chain, as predicates on a session.\<close>

definition is_today :: "calendar \<Rightarrow> int \<Rightarrow> chat_session \<Rightarrow> bool" where
  "is_today cal now s = (sessionDay cal s = Some (startOfDay cal now))"

definition is_yesterday :: "calendar \<Rightarrow> int \<Rightarrow> chat_session \<Rightarrow> bool" where
  "is_yesterday cal now s =
     (\<not> is_today cal now s
      \<and> sessionDay cal s = Some (addDays cal (startOfDay cal now) (- 1)))"

definition is_lastWeek :: "calendar \<Rightarrow> int \<Rightarrow> chat_session \<Rightarrow> bool" where
  "is_lastWeek cal now s =
     (\<not> is_today cal now s \<and> \<not> is_yesterday cal now s
      \<and> date_ge (sessionDay cal s) (addDays cal (startOfDay cal now) (- 7)))"

definition is_older :: "calendar \<Rightarrow> int \<Rightarrow> chat_session \<Rightarrow> bool" where
  "is_older cal now s =
     (\<not> is_today cal now s \<and> \<not> is_yesterday cal now s \<and> \<not> is_lastWeek cal now s)"

lemma place_branches:
  "place cal now g s =
     (if is_today cal now s then g\<lparr>today := today g @ [s]\<rparr>
      else if is_yesterday cal now s then g\<lparr>yesterday := yesterday g @ [s]\<rparr>
      else if is_lastWeek cal now s then g\<lparr>lastWeek := lastWeek g @ [s]\<rparr>
      else g\<lparr>older := older g @ [s]\<rparr>)"
  by (simp add: place_def Let_def is_today_def is_yesterday_def is_lastWeek_def)

lemma branches_exclusive:
  "is_today cal now s \<Longrightarrow> \<not> is_yesterday cal now s"
  "is_today cal now s \<Longrightarrow> \<not> is_lastWeek cal now s"
  "is_today cal now s \<Longrightarrow> \<not> is_older cal now s"
  "is_yesterday cal now s \<Longrightarrow> \<not> is_lastWeek cal now s"
  "is_yesterday cal now s \<Longrightarrow> \<not> is_older cal now s"
  "is_lastWeek cal now s \<Longrightarrow> \<not> is_older cal now s"
  by (simp_all add: is_yesterday_def is_lastWeek_def is_older_def)

lemma branches_exhaustive:
  "\<not> is_today cal now s \<Longrightarrow> \<not> is_yesterday cal now s \<Longrightarrow> \<not> is_lastWeek cal now s
     \<Longrightarrow> is_older cal now s"
  by (simp add: is_older_def)

lemma foldl_place:
  "foldl (place cal now) g xs =
     \<lparr>today = today g @ filter (is_today cal now) xs,
      yesterday = yesterday g @ filter (is_yesterday cal now) xs,
      lastWeek = lastWeek g @ filter (is_lastWeek cal now) xs,
      older = older g @ filter (is_older cal now) xs\<rparr>"
proof (induction xs arbitrary: g)
  case Nil
  show ?case by simp
next
  case (Cons x xs)
  show ?case
    unfolding foldl_Cons Cons.IH
    by (simp add: place_branches branches_exclusive branches_exhaustive)
qed

lemma groupSessionsByDate_filter:
  "groupSessionsByDate cal now xs =
     \<lparr>today = filter (is_today cal now) xs,
      yesterday = filter (is_yesterday cal now) xs,
      lastWeek = filter (is_lastWeek cal now) xs,
      older = filter (is_older cal now) xs\<rparr>"
  by (simp add: groupSessionsByDate_def foldl_place grouped_empty_def)

lemma four_way_mset:
  "mset (filter (is_today cal now) xs) + mset (filter (is_yesterday cal now) xs)
     + mset (filter (is_lastWeek cal now) xs) + mset (filter (is_older cal now) xs) = mset xs"
  by (induction xs) (auto simp: branches_exclusive branches_exhaustive)

text \<open>
  C9. \<^verbatim>\<open>groupSessionsByDate\<close> partitions the session list: the four groups together hold
  exactly the input sessions (as a multiset, so every occurrence is placed once), no session
  is in two groups, and the four group sizes add up to the number of input sessions.
\<close>

theorem groupSessionsByDate_partition:
  "mset (today (groupSessionsByDate cal now sessions))
     + mset (yesterday (groupSessionsByDate cal now sessions))
     + mset (lastWeek (groupSessionsByDate cal now sessions))
     + mset (older (groupSessionsByDate cal now sessions)) = mset sessions
   \<and> length (today (groupSessionsByDate cal now sessions))
     + length (yesterday (groupSessionsByDate cal now sessions))
     + length (lastWeek (groupSessionsByDate cal now sessions))
     + length (older (groupSessionsByDate cal now sessions)) = length sessions
   \<and> set (today (groupSessionsByDate cal now sessions))
       \<inter> set (yesterday (groupSessionsByDate cal now sessions)) = {}
   \<and> set (today (groupSessionsByDate cal now sessions))
       \<inter> set (lastWeek (groupSessionsByDate cal now sessions)) = {}
   \<and> set (today (groupSessionsByDate cal now sessions))
       \<inter> set (older (groupSessionsByDate cal now sessions)) = {}
   \<and> set (yesterday (groupSessionsByDate cal now sessions))
       \<inter> set (lastWeek (groupSessionsByDate cal now sessions)) = {}
   \<and> set (yesterday (groupSessionsByDate cal now sessions))
       \<inter> set (older (groupSessionsByDate cal now sessions)) = {}
   \<and> set (lastWeek (groupSessionsByDate cal now sessions))
       \<inter> set (older (groupSessionsByDate cal now sessions)) = {}"
proof -
  let ?g = "groupSessionsByDate cal now sessions"
  have m: "mset (today ?g) + mset (yesterday ?g) + mset (lastWeek ?g) + mset (older ?g)
             = mset sessions"
    by (simp only: groupSessionsByDate_filter grouped.select_convs four_way_mset)
  have "size (mset (today ?g) + mset (yesterday ?g) + mset (lastWeek ?g) + mset (older ?g))
          = size (mset sessions)"
    by (simp only: m)
  then have l: "length (today ?g) + length (yesterday ?g) + length (lastWeek ?g)
                  + length (older ?g) = length sessions"
    by simp
  have d: "set (today ?g) \<inter> set (yesterday ?g) = {}" "set (today ?g) \<inter> set (lastWeek ?g) = {}"
    "set (today ?g) \<inter> set (older ?g) = {}" "set (yesterday ?g) \<inter> set (lastWeek ?g) = {}"
    "set (yesterday ?g) \<inter> set (older ?g) = {}" "set (lastWeek ?g) \<inter> set (older ?g) = {}"
    unfolding groupSessionsByDate_filter
    by (auto simp: branches_exclusive)
  from m l d show ?thesis by blast
qed

section \<open>JavaScript strings\<close>

text \<open>
  A JavaScript string is a sequence of UTF-16 code units; \<open>string\<close> models the strings
  whose code units are below 256, one \<open>char\<close> per code unit. \<open>is_space\<close> is the set
  that \<^verbatim>\<open>String.prototype.trim\<close> strips and the regular-expression class \<^verbatim>\<open>\s\<close> matches
  (WhiteSpace and LineTerminator), restricted to those code units: TAB, LF, VT, FF, CR, SPACE
  and NO-BREAK SPACE.
\<close>

definition is_space :: "char \<Rightarrow> bool" where
  "is_space c = (c = CHR 0x09 \<or> c = CHR 0x0A \<or> c = CHR 0x0B \<or> c = CHR 0x0C
                 \<or> c = CHR 0x0D \<or> c = CHR 0x20 \<or> c = CHR 0xA0)"

definition trim :: "string \<Rightarrow> string" where
  "trim s = rev (dropWhile is_space (rev (dropWhile is_space s)))"

text \<open>\<^verbatim>\<open>s.startsWith(p)\<close> is \<^term>\<open>prefix p s\<close>; \<^verbatim>\<open>s.indexOf(p)\<close> and \<^verbatim>\<open>s.includes(p)\<close>:\<close>

fun indexOf :: "string \<Rightarrow> string \<Rightarrow> nat option" where
  "indexOf p [] = (if p = [] then Some 0 else None)"
| "indexOf p (c # cs) =
     (if prefix p (c # cs) then Some 0 else map_option Suc (indexOf p cs))"

definition js_includes :: "string \<Rightarrow> string \<Rightarrow> bool" where
  "js_includes p s = (indexOf p s \<noteq> None)"

text \<open>A string is falsy exactly when it is empty; \<^verbatim>\<open>null\<close> and \<^verbatim>\<open>undefined\<close> are \<open>None\<close>.\<close>

definition truthy :: "string option \<Rightarrow> bool" where
  "truthy v = (case v of None \<Rightarrow> False | Some s \<Rightarrow> s \<noteq> [])"

text \<open>The decimal form a template literal gives a non-negative integer.\<close>

definition digit_char :: "nat \<Rightarrow> char" where
  "digit_char d = char_of (48 + d)"

function show_nat :: "nat \<Rightarrow> string" where
  "show_nat n = (if n < 10 then [digit_char n] else show_nat (n div 10) @ [digit_char (n mod 10)])"
  by pat_completeness auto
termination
  by (relation "measure id") auto

declare show_nat.simps [simp del]

section \<open>Uploading documents\<close>

text \<open>
  Two components upload documents: \<^verbatim>\<open>FileUploadDialog\<close> (opened from the chat area) and the
  \<^verbatim>\<open>Documents\<close> page. Each \<^verbatim>\<open>handleUpload\<close> checks its state, and only then calls
  \<^verbatim>\<open>documentsAPI.upload\<close>. The model returns the state after the synchronous part of the
  handler, the toast it shows and the request it hands to \<^verbatim>\<open>documentsAPI.upload\<close>, if any.
\<close>

datatype collection_type = Main | Isolated

record js_file =
  file_name :: string
  file_type :: string

record upload_request =
  files :: "js_file list"
  collection_type :: collection_type
  collection_name :: "string option"

datatype toast = NoFilesSelected | CollectionNameRequired

record upload_dialog =
  dlg_files :: "js_file list"
  dlg_collectionType :: collection_type
  dlg_collectionName :: string
  dlg_uploading :: bool
  dlg_uploadProgress :: nat

definition dialog_handleUpload ::
  "upload_dialog \<Rightarrow> upload_dialog \<times> toast option \<times> upload_request option" where
  "dialog_handleUpload st =
     (if length (dlg_files st) = 0 then (st, Some NoFilesSelected, None)
      else if dlg_collectionType st = Isolated \<and> trim (dlg_collectionName st) = []
        then (st, Some CollectionNameRequired, None)
      else (st\<lparr>dlg_uploading := True, dlg_uploadProgress := 0\<rparr>, None,
            Some \<lparr>files = dlg_files st,
                  collection_type = dlg_collectionType st,
                  collection_name = (if dlg_collectionType st = Isolated
                                     then Some (dlg_collectionName st) else None)\<rparr>))"

record documents_page =
  doc_uploading :: bool
  doc_uploadDialogOpen :: bool
  doc_collectionType :: collection_type
  doc_collectionName :: string
  doc_selectedFiles :: "js_file list"

definition documents_handleUpload ::
  "documents_page \<Rightarrow> documents_page \<times> toast option \<times> upload_request option" where
  "documents_handleUpload st =
     (if length (doc_selectedFiles st) = 0 then (st, None, None)
      else if doc_collectionType st = Isolated \<and> trim (doc_collectionName st) = []
        then (st, Some CollectionNameRequired, None)
      else (st\<lparr>doc_uploading := True, doc_uploadDialogOpen := False\<rparr>, None,
            Some \<lparr>files = doc_selectedFiles st,
                  collection_type = doc_collectionType st,
                  collection_name = (if doc_collectionType st = Isolated
                                     then Some (doc_collectionName st) else None)\<rparr>))"

text \<open>
  What runs once the request has settled: the \<^verbatim>\<open>finally\<close> block of the page (after either
  outcome), and in the dialog the \<^verbatim>\<open>catch\<close> block or, one second after a success, the reset.
\<close>

definition documents_upload_settled :: "documents_page \<Rightarrow> documents_page" where
  "documents_upload_settled st =
     st\<lparr>doc_uploading := False, doc_selectedFiles := [], doc_collectionName := [],
        doc_collectionType := Main\<rparr>"

definition dialog_upload_settled :: "bool \<Rightarrow> upload_dialog \<Rightarrow> upload_dialog" where
  "dialog_upload_settled ok st =
     (if ok then st\<lparr>dlg_files := [], dlg_collectionType := Main, dlg_collectionName := [],
                    dlg_uploadProgress := 0, dlg_uploading := False\<rparr>
      else st\<lparr>dlg_uploading := False, dlg_uploadProgress := 0\<rparr>)"

text \<open>
  C8. An upload attempt with collection type \<^verbatim>\<open>isolated\<close> and a blank or whitespace-only
  collection name is rejected before any transport call: no request is handed to
  \<^verbatim>\<open>documentsAPI.upload\<close> and the component's state, the selected files included, is
  unchanged. A request for an isolated collection is issued only with a name that is not
  blank, and carries that name. This holds in both components.
\<close>

theorem isolated_upload_requires_name:
  "(dlg_collectionType d = Isolated \<and> trim (dlg_collectionName d) = []
      \<longrightarrow> fst (dialog_handleUpload d) = d \<and> snd (snd (dialog_handleUpload d)) = None)
   \<and> (doc_collectionType p = Isolated \<and> trim (doc_collectionName p) = []
      \<longrightarrow> fst (documents_handleUpload p) = p \<and> snd (snd (documents_handleUpload p)) = None)
   \<and> (snd (snd (dialog_handleUpload d)) = Some r \<and> collection_type r = Isolated
      \<longrightarrow> trim (dlg_collectionName d) \<noteq> [] \<and> collection_name r = Some (dlg_collectionName d)
          \<and> files r = dlg_files d)
   \<and> (snd (snd (documents_handleUpload p)) = Some r' \<and> collection_type r' = Isolated
      \<longrightarrow> trim (doc_collectionName p) \<noteq> [] \<and> collection_name r' = Some (doc_collectionName p)
          \<and> files r' = doc_selectedFiles p)"
  by (auto simp: dialog_handleUpload_def documents_handleUpload_def split: if_splits)

theorem isolated_upload_requires_name_witness:
  "fst (dialog_handleUpload
          \<lparr>dlg_files = [\<lparr>file_name = ''a.pdf'', file_type = ''application/pdf''\<rparr>],
           dlg_collectionType = Isolated, dlg_collectionName = ''  '',
           dlg_uploading = False, dlg_uploadProgress = 0\<rparr>)
     = \<lparr>dlg_files = [\<lparr>file_name = ''a.pdf'', file_type = ''application/pdf''\<rparr>],
        dlg_collectionType = Isolated, dlg_collectionName = ''  '',
        dlg_uploading = False, dlg_uploadProgress = 0\<rparr>
   \<and> snd (snd (dialog_handleUpload
          \<lparr>dlg_files = [\<lparr>file_name = ''a.pdf'', file_type = ''application/pdf''\<rparr>],
           dlg_collectionType = Isolated, dlg_collectionName = ''  '',
           dlg_uploading = False, dlg_uploadProgress = 0\<rparr>)) = None
   \<and> snd (snd (documents_handleUpload
          \<lparr>doc_uploading = False, doc_uploadDialogOpen = True, doc_collectionType = Isolated,
           doc_collectionName = [CHR 0x09], 
           doc_selectedFiles = [\<lparr>file_name = ''a.pdf'', file_type = ''application/pdf''\<rparr>]\<rparr>))
     = None
   \<and> trim ''Project Alpha'' \<noteq> []
   \<and> snd (snd (documents_handleUpload
          \<lparr>doc_uploading = False, doc_uploadDialogOpen = True, doc_collectionType = Isolated,
           doc_collectionName = ''Project Alpha'', 
           doc_selectedFiles = [\<lparr>file_name = ''a.pdf'', file_type = ''application/pdf''\<rparr>]\<rparr>))
     = Some \<lparr>files = [\<lparr>file_name = ''a.pdf'', file_type = ''application/pdf''\<rparr>],
             collection_type = Isolated, collection_name = Some ''Project Alpha''\<rparr>"
  using isolated_upload_requires_name
    [of "\<lparr>dlg_files = [\<lparr>file_name = ''a.pdf'', file_type = ''application/pdf''\<rparr>],
           dlg_collectionType = Isolated, dlg_collectionName = ''  '',
           dlg_uploading = False, dlg_uploadProgress = 0\<rparr>"
        "\<lparr>doc_uploading = False, doc_uploadDialogOpen = True, doc_collectionType = Isolated,
           doc_collectionName = [CHR 0x09], 
           doc_selectedFiles = [\<lparr>file_name = ''a.pdf'', file_type = ''application/pdf''\<rparr>]\<rparr>"]
  by (simp add: trim_def is_space_def documents_handleUpload_def)

section \<open>The chat area\<close>

text \<open>
  \<^verbatim>\<open>ChatArea\<close> holds the state of one chat: the text being typed, the message list, the
  \<^verbatim>\<open>loading\<close> flag, the two dialog flags and the session mode. Its \<^verbatim>\<open>sessionId\<close> is a
  prop, owned by the \<^verbatim>\<open>Chat\<close> page as \<^verbatim>\<open>currentSessionId\<close>; the page renders one
  \<^verbatim>\<open>ChatArea\<close> without a key, so the component and its state live across sessions.
\<close>

datatype session_mode = Casual | Study | Research

datatype message_type = User | Assistant

text \<open>
  \<^verbatim>\<open>Citation\<close> as \<^verbatim>\<open>ChatMessage\<close> declares it, with fields \<^verbatim>\<open>file\<close>, \<^verbatim>\<open>page\<close> and
  \<^verbatim>\<open>lines\<close>. The citations that \<^verbatim>\<open>handleSend\<close> formats
  carry two more fields, \<^verbatim>\<open>snippet\<close> and \<^verbatim>\<open>score\<close>, copied from the response and read
  nowhere in these components; they are left out.
\<close>

record citation =
  cit_file :: string
  cit_page :: nat
  cit_lines :: string

record chat_message =
  msg_id :: int
  msg_type :: message_type
  content :: string
  timestamp :: int
  citations :: "citation list option"

text \<open>The argument of \<^verbatim>\<open>chatAPI.query\<close> and the fields read from what it resolves to.\<close>

record query_request =
  query :: string
  q_session_id :: "string option"
  top_k :: nat
  q_session_mode :: session_mode

record api_citation =
  document :: string
  api_page :: "nat option"
  line_start :: "nat option"
  line_end :: "nat option"

record query_response =
  answer :: string
  r_session_id :: "string option"
  r_citations :: "api_citation list option"

text \<open>
  \<^verbatim>\<open>msg_id\<close> and \<^verbatim>\<open>timestamp\<close> hold clock readings in milliseconds. Two fields of the
  state record what the component has asked of the transport, and are not component state: \<open>queries\<close> lists the calls of \<^verbatim>\<open>chatAPI.query\<close>, oldest first, and \<open>pending\<close>
  lists the calls of \<^verbatim>\<open>handleSend\<close> suspended at their \<^verbatim>\<open>await\<close>, each with the
  \<^verbatim>\<open>sessionId\<close> its closure captured.
\<close>

record chat_area =
  message :: string
  messages :: "chat_message list"
  loading :: bool
  uploadDialogOpen :: bool
  modeDialogOpen :: bool
  sessionMode :: session_mode
  sessionId :: "string option"
  queries :: "query_request list"
  pending :: "string option list"

text \<open>
  The effect \<^verbatim>\<open>if (!sessionId && messages.length === 0) setModeDialogOpen(true)\<close>, which
  React runs after the first render and after each render in which \<^verbatim>\<open>sessionId\<close> or
  \<^verbatim>\<open>messages.length\<close> has changed.
\<close>

definition mode_dialog_effect :: "chat_area \<Rightarrow> chat_area" where
  "mode_dialog_effect st =
     (if \<not> truthy (sessionId st) \<and> length (messages st) = 0
      then st\<lparr>modeDialogOpen := True\<rparr> else st)"

definition after_render :: "chat_area \<Rightarrow> chat_area \<Rightarrow> chat_area" where
  "after_render old new =
     (if sessionId new \<noteq> sessionId old \<or> length (messages new) \<noteq> length (messages old)
      then mode_dialog_effect new else new)"

text \<open>The state after the component has mounted with the given \<^verbatim>\<open>sessionId\<close> prop.\<close>

definition mount :: "string option \<Rightarrow> chat_area" where
  "mount sid =
     mode_dialog_effect
       \<lparr>message = [], messages = [], loading = False, uploadDialogOpen = False,
        modeDialogOpen = False, sessionMode = Casual, sessionId = sid,
        queries = [], pending = []\<rparr>"

text \<open>
  \<^verbatim>\<open>handleSend\<close> up to its \<^verbatim>\<open>await\<close>. \<open>now\<close> is the clock reading (\<^verbatim>\<open>Date.now()\<close>,
  \<^verbatim>\<open>new Date()\<close>).
\<close>

definition userMessage :: "int \<Rightarrow> string \<Rightarrow> chat_message" where
  "userMessage now text =
     \<lparr>msg_id = now, msg_type = User, content = text, timestamp = now, citations = None\<rparr>"

definition handleSend :: "int \<Rightarrow> chat_area \<Rightarrow> chat_area" where
  "handleSend now st =
     (if trim (message st) = [] \<or> loading st then st
      else after_render st
        (st\<lparr>messages := messages st @ [userMessage now (message st)],
            message := [],
            loading := True,
            queries := queries st @
              [\<lparr>query = message st,
                q_session_id = (if truthy (sessionId st) then sessionId st else None),
                top_k = 15,
                q_session_mode = sessionMode st\<rparr>],
            pending := pending st @ [sessionId st]\<rparr>))"

text \<open>The rest of \<^verbatim>\<open>handleSend\<close>, run when the \<open>k\<close>-th pending query settles.\<close>

definition formatCitation :: "api_citation \<Rightarrow> citation" where
  "formatCitation c =
     \<lparr>cit_file = document c,
      cit_page = (case api_page c of None \<Rightarrow> 0 | Some n \<Rightarrow> n),
      cit_lines = (case (line_start c, line_end c) of
                 (Some a, Some b) \<Rightarrow>
                   if a \<noteq> 0 \<and> b \<noteq> 0 then show_nat a @ ''-'' @ show_nat b else []
               | _ \<Rightarrow> [])\<rparr>"

definition assistantMessage :: "int \<Rightarrow> query_response \<Rightarrow> chat_message" where
  "assistantMessage now response =
     \<lparr>msg_id = now + 1, msg_type = Assistant, content = answer response, timestamp = now,
      citations = Some (case r_citations response of None \<Rightarrow> []
                        | Some cs \<Rightarrow> map formatCitation cs)\<rparr>"

definition errorMessage :: "int \<Rightarrow> chat_message" where
  "errorMessage now =
     \<lparr>msg_id = now + 1, msg_type = Assistant,
      content = ''Sorry, I encountered an error processing your request. Please try again.'',
      timestamp = now, citations = Some []\<rparr>"

definition remove_nth :: "nat \<Rightarrow> 'a list \<Rightarrow> 'a list" where
  "remove_nth k xs = take k xs @ drop (Suc k) xs"

definition queryResolved :: "nat \<Rightarrow> query_response \<Rightarrow> int \<Rightarrow> chat_area \<Rightarrow> chat_area" where
  "queryResolved k response now st =
     (if k < length (pending st) then
        (let captured = pending st ! k;
             st1 = (if \<not> truthy captured \<and> truthy (r_session_id response)
                    then st\<lparr>sessionId := r_session_id response\<rparr> else st)
         in after_render st
              (st1\<lparr>messages := messages st1 @ [assistantMessage now response],
                   loading := False,
                   pending := remove_nth k (pending st1)\<rparr>))
      else st)"

definition queryRejected :: "nat \<Rightarrow> int \<Rightarrow> chat_area \<Rightarrow> chat_area" where
  "queryRejected k now st =
     (if k < length (pending st) then
        after_render st
          (st\<lparr>messages := messages st @ [errorMessage now],
              loading := False,
              pending := remove_nth k (pending st)\<rparr>)
      else st)"

text \<open>
  \<^verbatim>\<open>SessionModeDialog.handleSelect\<close>: \<^verbatim>\<open>onModeSelect(mode); onOpenChange(false)\<close>, wired
  to \<^verbatim>\<open>setSessionMode\<close> and \<^verbatim>\<open>setModeDialogOpen\<close>.
\<close>

definition handleSelect :: "session_mode \<Rightarrow> chat_area \<Rightarrow> chat_area" where
  "handleSelect mode st = st\<lparr>sessionMode := mode, modeDialogOpen := False\<rparr>"

text \<open>
  \<^verbatim>\<open>Chat.handleSessionSelect\<close>: \<^verbatim>\<open>setCurrentSessionId(sessionId || null)\<close>; the sidebar
  calls it with a session's id, or with the empty string for a new chat. Setting the value
  it already has renders nothing. Otherwise the effects of \<^verbatim>\<open>ChatArea\<close> run: the mode-dialog
  effect, then \<^verbatim>\<open>loadSession\<close> (whose answer arrives later) or \<^verbatim>\<open>setMessages([])\<close>.
\<close>

definition handleSessionSelect :: "string \<Rightarrow> chat_area \<Rightarrow> chat_area" where
  "handleSessionSelect s st =
     (let sid = (if s = [] then None else Some s) in
      if sid = sessionId st then st
      else (let st1 = mode_dialog_effect (st\<lparr>sessionId := sid\<rparr>) in
            if truthy sid then st1 else after_render st1 (st1\<lparr>messages := []\<rparr>)))"

text \<open>
  \<^verbatim>\<open>loadSession\<close> once \<^verbatim>\<open>chatAPI.getSession\<close> has resolved: \<^verbatim>\<open>setMessages(loadedMessages)\<close>,
  the argument being the mapped message list.
\<close>

definition sessionLoaded :: "chat_message list \<Rightarrow> chat_area \<Rightarrow> chat_area" where
  "sessionLoaded loadedMessages st = after_render st (st\<lparr>messages := loadedMessages\<rparr>)"

datatype event =
    SetMessage string
  | HandleSend int
  | QueryResolved nat query_response int
  | QueryRejected nat int
  | HandleSelect session_mode
  | SetModeDialogOpen bool
  | SetUploadDialogOpen bool
  | HandleSessionSelect string
  | SessionLoaded "chat_message list"

fun step :: "chat_area \<Rightarrow> event \<Rightarrow> chat_area" where
  "step st (SetMessage text) = st\<lparr>message := text\<rparr>"
| "step st (HandleSend now) = handleSend now st"
| "step st (QueryResolved k response now) = queryResolved k response now st"
| "step st (QueryRejected k now) = queryRejected k now st"
| "step st (HandleSelect mode) = handleSelect mode st"
| "step st (SetModeDialogOpen b) = st\<lparr>modeDialogOpen := b\<rparr>"
| "step st (SetUploadDialogOpen b) = st\<lparr>uploadDialogOpen := b\<rparr>"
| "step st (HandleSessionSelect s) = handleSessionSelect s st"
| "step st (SessionLoaded loadedMessages) = sessionLoaded loadedMessages st"

definition run :: "string option \<Rightarrow> event list \<Rightarrow> chat_area" where
  "run sid events = foldl step (mount sid) events"

subsection \<open>Evaluation and frame lemmas\<close>

lemmas chat_eval = run_def mount_def mode_dialog_effect_def truthy_def handleSend_def
        handleSelect_def trim_def is_space_def after_render_def userMessage_def errorMessage_def
        queryResolved_def assistantMessage_def handleSessionSelect_def remove_nth_def Let_def

lemma after_render_fields [simp]:
  "messages (after_render a b) = messages b"
  "message (after_render a b) = message b"
  "loading (after_render a b) = loading b"
  "sessionMode (after_render a b) = sessionMode b"
  "sessionId (after_render a b) = sessionId b"
  "queries (after_render a b) = queries b"
  "pending (after_render a b) = pending b"
  "uploadDialogOpen (after_render a b) = uploadDialogOpen b"
  by (simp_all add: after_render_def mode_dialog_effect_def)

lemma mode_dialog_effect_fields [simp]:
  "messages (mode_dialog_effect b) = messages b"
  "message (mode_dialog_effect b) = message b"
  "loading (mode_dialog_effect b) = loading b"
  "sessionMode (mode_dialog_effect b) = sessionMode b"
  "sessionId (mode_dialog_effect b) = sessionId b"
  "queries (mode_dialog_effect b) = queries b"
  "pending (mode_dialog_effect b) = pending b"
  "uploadDialogOpen (mode_dialog_effect b) = uploadDialogOpen b"
  by (simp_all add: mode_dialog_effect_def)

definition one_in_flight :: "chat_area \<Rightarrow> bool" where
  "one_in_flight st = (length (pending st) \<le> 1 \<and> loading st = (pending st \<noteq> []))"

lemma one_in_flight_mount: "one_in_flight (mount sid)"
  by (simp add: one_in_flight_def mount_def)

lemma remove_nth_single: "length xs \<le> 1 \<Longrightarrow> k < length xs \<Longrightarrow> remove_nth k xs = []"
  by (cases xs) (auto simp: remove_nth_def)

lemma one_in_flight_step: "one_in_flight st \<Longrightarrow> one_in_flight (step st e)"
proof (cases e)
  case (HandleSend now)
  assume "one_in_flight st"
  then show ?thesis using HandleSend
    by (auto simp: one_in_flight_def handleSend_def)
next
  case (QueryResolved k r now)
  assume "one_in_flight st"
  then show ?thesis using QueryResolved
    by (auto simp: one_in_flight_def queryResolved_def Let_def remove_nth_single)
next
  case (QueryRejected k now)
  assume "one_in_flight st"
  then show ?thesis using QueryRejected
    by (auto simp: one_in_flight_def queryRejected_def remove_nth_single)
next
  case (HandleSessionSelect s)
  assume "one_in_flight st"
  then show ?thesis using HandleSessionSelect
    by (auto simp: one_in_flight_def handleSessionSelect_def Let_def)
qed (auto simp: one_in_flight_def handleSelect_def sessionLoaded_def)

lemma one_in_flight_foldl: "one_in_flight st \<Longrightarrow> one_in_flight (foldl step st events)"
  by (induction events arbitrary: st) (simp_all add: one_in_flight_step)

lemma one_in_flight_run: "one_in_flight (run sid events)"
  unfolding run_def by (rule one_in_flight_foldl [OF one_in_flight_mount])

text \<open>
  The order of the message list, by the types of its messages: \<open>well_paired types
  awaiting\<close> says that the list is a sequence of pairs of a user message and the assistant
  message answering it, followed, exactly when a reply is awaited, by one more user message.

  Two events replace the message list rather than append to it: a session selected in the
  sidebar (a new chat empties the list) and a loaded session history. An event is
  \<open>quiet\<close> in a state when it is neither of these, or when it happens while no query is
  loading and, for a loaded history, the history is itself a sequence of such pairs;
  \<open>orderly st events\<close> says that each event of the sequence is quiet in the state it
  happens in.
\<close>

fun well_paired :: "message_type list \<Rightarrow> bool \<Rightarrow> bool" where
  "well_paired [] awaiting = (\<not> awaiting)"
| "well_paired [User] awaiting = awaiting"
| "well_paired (User # Assistant # rest) awaiting = well_paired rest awaiting"
| "well_paired types awaiting = False"

fun quiet :: "chat_area \<Rightarrow> event \<Rightarrow> bool" where
  "quiet st (HandleSessionSelect s) = (\<not> loading st)"
| "quiet st (SessionLoaded loadedMessages) =
     (\<not> loading st \<and> well_paired (map msg_type loadedMessages) False)"
| "quiet st e = True"

fun orderly :: "chat_area \<Rightarrow> event list \<Rightarrow> bool" where
  "orderly st [] = True"
| "orderly st (e # events) = (quiet st e \<and> orderly (step st e) events)"

lemma well_paired_send: "well_paired types False \<Longrightarrow> well_paired (types @ [User]) True"
  by (induction types "False" rule: well_paired.induct) simp_all

lemma well_paired_reply: "well_paired types True \<Longrightarrow> well_paired (types @ [Assistant]) False"
  by (induction types "True" rule: well_paired.induct) simp_all

definition paired :: "chat_area \<Rightarrow> bool" where
  "paired st = (one_in_flight st \<and> well_paired (map msg_type (messages st)) (loading st))"

lemma paired_mount: "paired (mount sid)"
  by (simp add: paired_def one_in_flight_mount) (simp add: mount_def)

lemma paired_step:
  assumes "paired st" and "quiet st e"
  shows "paired (step st e)"
proof -
  from assms(1) have o: "one_in_flight st"
    and w: "well_paired (map msg_type (messages st)) (loading st)"
    by (simp_all add: paired_def)
  have o': "one_in_flight (step st e)" by (rule one_in_flight_step [OF o])
  have "well_paired (map msg_type (messages (step st e))) (loading (step st e))"
  proof (cases e)
    case (HandleSend now)
    show ?thesis
    proof (cases "trim (message st) = [] \<or> loading st")
      case True
      with w HandleSend show ?thesis by (simp add: handleSend_def)
    next
      case False
      with w have "well_paired (map msg_type (messages st) @ [User]) True"
        by (intro well_paired_send) simp
      with False HandleSend show ?thesis by (simp add: handleSend_def userMessage_def)
    qed
  next
    case (QueryResolved k r now)
    show ?thesis
    proof (cases "k < length (pending st)")
      case True
      with o have "loading st" by (auto simp: one_in_flight_def)
      with w have "well_paired (map msg_type (messages st) @ [Assistant]) False"
        by (intro well_paired_reply) simp
      with True QueryResolved show ?thesis
        by (simp add: queryResolved_def Let_def assistantMessage_def)
    next
      case False
      with w QueryResolved show ?thesis by (simp add: queryResolved_def)
    qed
  next
    case (QueryRejected k now)
    show ?thesis
    proof (cases "k < length (pending st)")
      case True
      with o have "loading st" by (auto simp: one_in_flight_def)
      with w have "well_paired (map msg_type (messages st) @ [Assistant]) False"
        by (intro well_paired_reply) simp
      with True QueryRejected show ?thesis
        by (simp add: queryRejected_def errorMessage_def)
    next
      case False
      with w QueryRejected show ?thesis by (simp add: queryRejected_def)
    qed
  next
    case (HandleSessionSelect s)
    with assms(2) have "\<not> loading st" by simp
    with w HandleSessionSelect show ?thesis
      by (simp add: handleSessionSelect_def Let_def)
  next
    case (SessionLoaded ms)
    with assms(2) show ?thesis by (simp add: sessionLoaded_def)
  qed (use w in \<open>simp_all add: handleSelect_def\<close>)
  with o' show ?thesis by (simp add: paired_def)
qed

lemma paired_foldl: "paired st \<Longrightarrow> orderly st events \<Longrightarrow> paired (foldl step st events)"
  by (induction events arbitrary: st) (simp_all add: paired_step)

text \<open>
  C5, as amended. A chat never has two queries in flight: in every state the chat area
  reaches from its mounting, by any sequence of events, at most one call of
  \<^verbatim>\<open>handleSend\<close> is suspended at its \<^verbatim>\<open>await\<close>, and \<^verbatim>\<open>loading\<close> is set exactly while
  one is. In every state in which \<^verbatim>\<open>loading\<close> is set, and in every state whose typed
  message is empty or only white space, \<^verbatim>\<open>handleSend\<close> changes nothing: it starts no query
  and appends no message. As long as no session is selected and no history is loaded
  while a query is loading, and the loaded histories are sequences of (user, assistant)
  pairs, the message list is a sequence of (user, assistant) pairs, followed by the user's
  message of the turn in flight exactly while a query is loading.
\<close>

theorem at_most_one_query_in_flight:
  "length (pending (run sid events)) \<le> 1
   \<and> loading (run sid events) = (pending (run sid events) \<noteq> [])
   \<and> (loading st \<or> trim (message st) = [] \<longrightarrow> handleSend now st = st)
   \<and> (orderly (mount sid) events \<longrightarrow>
        well_paired (map msg_type (messages (run sid events))) (loading (run sid events)))"
proof -
  have "well_paired (map msg_type (messages (run sid events))) (loading (run sid events))"
    if "orderly (mount sid) events"
    using paired_foldl [OF paired_mount that] by (simp add: paired_def run_def)
  with one_in_flight_run [of sid events] show ?thesis
    by (simp add: one_in_flight_def handleSend_def)
qed

theorem at_most_one_query_in_flight_witness:
  "orderly (mount None)
     [HandleSelect Casual, SetMessage ''q'', HandleSend 1, HandleSend 2,
      QueryResolved 0 \<lparr>answer = ''a'', r_session_id = Some ''s1'', r_citations = None\<rparr> 3,
      SessionLoaded
        [\<lparr>msg_id = 0, msg_type = User, content = ''q'', timestamp = 1, citations = Some []\<rparr>,
         \<lparr>msg_id = 1, msg_type = Assistant, content = ''a'', timestamp = 3,
          citations = Some []\<rparr>],
      SetMessage ''r'', HandleSend 4]
   \<and> map msg_type (messages (run None
     [HandleSelect Casual, SetMessage ''q'', HandleSend 1, HandleSend 2,
      QueryResolved 0 \<lparr>answer = ''a'', r_session_id = Some ''s1'', r_citations = None\<rparr> 3,
      SessionLoaded
        [\<lparr>msg_id = 0, msg_type = User, content = ''q'', timestamp = 1, citations = Some []\<rparr>,
         \<lparr>msg_id = 1, msg_type = Assistant, content = ''a'', timestamp = 3,
          citations = Some []\<rparr>],
      SetMessage ''r'', HandleSend 4])) = [User, Assistant, User]
   \<and> loading (run None
     [HandleSelect Casual, SetMessage ''q'', HandleSend 1, HandleSend 2,
      QueryResolved 0 \<lparr>answer = ''a'', r_session_id = Some ''s1'', r_citations = None\<rparr> 3,
      SessionLoaded
        [\<lparr>msg_id = 0, msg_type = User, content = ''q'', timestamp = 1, citations = Some []\<rparr>,
         \<lparr>msg_id = 1, msg_type = Assistant, content = ''a'', timestamp = 3,
          citations = Some []\<rparr>],
      SetMessage ''r'', HandleSend 4])
   \<and> handleSend 5 (run None
     [HandleSelect Casual, SetMessage ''q'', HandleSend 1, HandleSend 2,
      QueryResolved 0 \<lparr>answer = ''a'', r_session_id = Some ''s1'', r_citations = None\<rparr> 3,
      SessionLoaded
        [\<lparr>msg_id = 0, msg_type = User, content = ''q'', timestamp = 1, citations = Some []\<rparr>,
         \<lparr>msg_id = 1, msg_type = Assistant, content = ''a'', timestamp = 3,
          citations = Some []\<rparr>],
      SetMessage ''r'', HandleSend 4])
     = run None
     [HandleSelect Casual, SetMessage ''q'', HandleSend 1, HandleSend 2,
      QueryResolved 0 \<lparr>answer = ''a'', r_session_id = Some ''s1'', r_citations = None\<rparr> 3,
      SessionLoaded
        [\<lparr>msg_id = 0, msg_type = User, content = ''q'', timestamp = 1, citations = Some []\<rparr>,
         \<lparr>msg_id = 1, msg_type = Assistant, content = ''a'', timestamp = 3,
          citations = Some []\<rparr>],
      SetMessage ''r'', HandleSend 4]"
proof -
  let ?T = "[HandleSelect Casual, SetMessage ''q'', HandleSend 1, HandleSend 2,
      QueryResolved 0 \<lparr>answer = ''a'', r_session_id = Some ''s1'', r_citations = None\<rparr> 3,
      SessionLoaded
        [\<lparr>msg_id = 0, msg_type = User, content = ''q'', timestamp = 1, citations = Some []\<rparr>,
         \<lparr>msg_id = 1, msg_type = Assistant, content = ''a'', timestamp = 3,
          citations = Some []\<rparr>],
      SetMessage ''r'', HandleSend 4]"
  have o: "orderly (mount None) ?T"
    by (simp add: chat_eval sessionLoaded_def)
  have m: "map msg_type (messages (run None ?T)) = [User, Assistant, User]"
    by (simp add: chat_eval sessionLoaded_def)
  have l: "loading (run None ?T)"
    by (simp add: chat_eval sessionLoaded_def)
  from at_most_one_query_in_flight [of None ?T "run None ?T" 5] o m l
  show ?thesis by simp
qed

text \<open>
  The claim as first stated, that the guard preserves the order of (user, assistant) pairs,
  fails on the message list: the guard is local to the component, and the list is replaced
  when a session is selected. The user sends a message in a new chat and, while the query
  is loading, selects another session, whose history of one pair is loaded; the reply to
  the pending query is then appended to that history, which ends in two assistant
  messages. One query was sent.
\<close>

theorem late_reply_breaks_pairs_counterexample:
  "map msg_type (messages (run None
     [HandleSelect Casual, SetMessage ''q'', HandleSend 1, HandleSessionSelect ''s2'',
      SessionLoaded
        [\<lparr>msg_id = 0, msg_type = User, content = ''old'', timestamp = 0, citations = Some []\<rparr>,
         \<lparr>msg_id = 1, msg_type = Assistant, content = ''old answer'', timestamp = 0,
          citations = Some []\<rparr>],
      QueryResolved 0 \<lparr>answer = ''a'', r_session_id = Some ''s9'', r_citations = None\<rparr> 2]))
     = [User, Assistant, Assistant]
   \<and> queries (run None
     [HandleSelect Casual, SetMessage ''q'', HandleSend 1, HandleSessionSelect ''s2'',
      SessionLoaded
        [\<lparr>msg_id = 0, msg_type = User, content = ''old'', timestamp = 0, citations = Some []\<rparr>,
         \<lparr>msg_id = 1, msg_type = Assistant, content = ''old answer'', timestamp = 0,
          citations = Some []\<rparr>],
      QueryResolved 0 \<lparr>answer = ''a'', r_session_id = Some ''s9'', r_citations = None\<rparr> 2])
     = [\<lparr>query = ''q'', q_session_id = None, top_k = 15, q_session_mode = Casual\<rparr>]
   \<and> \<not> well_paired [User, Assistant, Assistant] False"
  by (simp add: chat_eval sessionLoaded_def)







lemma queries_handleSend:
  "\<not> loading st \<Longrightarrow> trim (message st) \<noteq> [] \<Longrightarrow>
   queries (handleSend now st) = queries st @
     [\<lparr>query = message st,
       q_session_id = (if truthy (sessionId st) then sessionId st else None),
       top_k = 15, q_session_mode = sessionMode st\<rparr>]"
  by (simp add: handleSend_def)

text \<open>
  C7, as amended. A session mode is one of exactly the three values casual, study and
  research. The chat area is mounted in casual mode with no messages, and with the
  mode-selection dialog open when it has no session. Selecting a mode in the dialog sets it
  and closes the dialog, and every query carries the mode selected when it is sent, so a
  mode selected before a turn is the mode that turn's query carries. A new chat started
  from a session empties the message list and opens the dialog again, and keeps the mode
  selected last: it does not return to casual.
\<close>

theorem query_carries_selected_mode:
  "(m = Casual \<or> m = Study \<or> m = Research)
   \<and> sessionMode (mount sid) = Casual
   \<and> messages (mount sid) = [] \<and> queries (mount sid) = []
   \<and> (\<not> truthy sid \<longrightarrow> modeDialogOpen (mount sid))
   \<and> sessionMode (handleSelect mode st) = mode
   \<and> \<not> modeDialogOpen (handleSelect mode st)
   \<and> (\<not> loading st \<and> trim (message st) \<noteq> [] \<longrightarrow>
        queries (handleSend now st) = queries st @
          [\<lparr>query = message st,
            q_session_id = (if truthy (sessionId st) then sessionId st else None),
            top_k = 15, q_session_mode = sessionMode st\<rparr>])
   \<and> (\<not> loading st \<and> trim (message st) \<noteq> [] \<longrightarrow>
        q_session_mode (last (queries (handleSend now (handleSelect mode st)))) = mode)
   \<and> (sessionId st \<noteq> None \<longrightarrow>
        sessionId (handleSessionSelect [] st) = None
        \<and> messages (handleSessionSelect [] st) = []
        \<and> modeDialogOpen (handleSessionSelect [] st)
        \<and> sessionMode (handleSessionSelect [] st) = sessionMode st)"
proof -
  have 1: "m = Casual \<or> m = Study \<or> m = Research" by (cases m) simp_all
  have 2: "sessionMode (mount sid) = Casual \<and> messages (mount sid) = [] \<and> queries (mount sid) = []"
    by (simp add: mount_def)
  have 3: "\<not> truthy sid \<longrightarrow> modeDialogOpen (mount sid)"
    by (simp add: mount_def mode_dialog_effect_def)
  have 4: "sessionMode (handleSelect mode st) = mode \<and> \<not> modeDialogOpen (handleSelect mode st)"
    by (simp add: handleSelect_def)
  have 5: "sessionId st \<noteq> None \<longrightarrow>
        sessionId (handleSessionSelect [] st) = None
        \<and> messages (handleSessionSelect [] st) = []
        \<and> modeDialogOpen (handleSessionSelect [] st)
        \<and> sessionMode (handleSessionSelect [] st) = sessionMode st"
    by (auto simp: handleSessionSelect_def Let_def truthy_def after_render_def mode_dialog_effect_def)
  have 6: "\<not> loading st \<and> trim (message st) \<noteq> [] \<longrightarrow>
        q_session_mode (last (queries (handleSend now (handleSelect mode st)))) = mode"
    by (simp add: handleSend_def handleSelect_def)
  from 1 2 3 4 5 6 queries_handleSend [of st now] show ?thesis by blast
qed

theorem query_carries_selected_mode_witness:
  "\<not> truthy None \<and> modeDialogOpen (mount None)
   \<and> \<not> loading (run (Some ''s1'') [HandleSelect Research, SetMessage ''q''])
   \<and> trim (message (run (Some ''s1'') [HandleSelect Research, SetMessage ''q''])) \<noteq> []
   \<and> queries (handleSend 5 (run (Some ''s1'') [HandleSelect Research, SetMessage ''q'']))
       = [\<lparr>query = ''q'', q_session_id = Some ''s1'', top_k = 15, q_session_mode = Research\<rparr>]
   \<and> q_session_mode (last (queries (handleSend 5 (handleSelect Study
         (run (Some ''s1'') [HandleSelect Research, SetMessage ''q'']))))) = Study
   \<and> sessionId (run (Some ''s1'') [HandleSelect Research, SetMessage ''q'']) \<noteq> None
   \<and> sessionId (handleSessionSelect []
         (run (Some ''s1'') [HandleSelect Research, SetMessage ''q''])) = None
   \<and> messages (handleSessionSelect []
         (run (Some ''s1'') [HandleSelect Research, SetMessage ''q''])) = []
   \<and> modeDialogOpen (handleSessionSelect []
         (run (Some ''s1'') [HandleSelect Research, SetMessage ''q'']))
   \<and> sessionMode (handleSessionSelect []
         (run (Some ''s1'') [HandleSelect Research, SetMessage ''q''])) = Research"
  using query_carries_selected_mode
          [where sid = None and now = 5 and mode = Study
             and st = "run (Some ''s1'') [HandleSelect Research, SetMessage ''q'']"]
  by (simp add: chat_eval)

text \<open>
  The claim as first stated, that a new chat defaults to casual, fails. The user selects
  study, sends a message and is answered in a new session, whose messages are then loaded.
  A new chat started from the sidebar has no session and no messages, the dialog is open
  again, and the mode is still study; with the dialog dismissed, the first query of the
  new chat carries study.
\<close>

theorem new_chat_keeps_mode_counterexample:
  "run None
     [HandleSelect Study, SetMessage ''hi'', HandleSend 1,
      QueryResolved 0 \<lparr>answer = ''hello'', r_session_id = Some ''s1'', r_citations = None\<rparr> 2,
      SessionLoaded
        [\<lparr>msg_id = 0, msg_type = User, content = ''hi'', timestamp = 1, citations = Some []\<rparr>,
         \<lparr>msg_id = 1, msg_type = Assistant, content = ''hello'', timestamp = 2,
          citations = Some []\<rparr>],
      HandleSessionSelect []]
     = \<lparr>message = [], messages = [], loading = False, uploadDialogOpen = False,
        modeDialogOpen = True, sessionMode = Study, sessionId = None,
        queries = [\<lparr>query = ''hi'', q_session_id = None, top_k = 15, q_session_mode = Study\<rparr>],
        pending = []\<rparr>
   \<and> queries (run None
     [HandleSelect Study, SetMessage ''hi'', HandleSend 1,
      QueryResolved 0 \<lparr>answer = ''hello'', r_session_id = Some ''s1'', r_citations = None\<rparr> 2,
      SessionLoaded
        [\<lparr>msg_id = 0, msg_type = User, content = ''hi'', timestamp = 1, citations = Some []\<rparr>,
         \<lparr>msg_id = 1, msg_type = Assistant, content = ''hello'', timestamp = 2,
          citations = Some []\<rparr>],
      HandleSessionSelect [], SetModeDialogOpen False, SetMessage ''again'', HandleSend 3])
     = [\<lparr>query = ''hi'', q_session_id = None, top_k = 15, q_session_mode = Study\<rparr>,
        \<lparr>query = ''again'', q_session_id = None, top_k = 15, q_session_mode = Study\<rparr>]
   \<and> Study \<noteq> Casual"
  by (simp add: chat_eval sessionLoaded_def)

section \<open>Chat messages: flashcard blocks\<close>

text \<open>
  \<^verbatim>\<open>ChatMessage\<close> computes two things from \<^verbatim>\<open>message.content\<close> before rendering:
  \<^verbatim>\<open>hasFlashcards\<close>, by two calls of \<^verbatim>\<open>includes\<close>, and \<^verbatim>\<open>displayContent\<close>, by
  \<^verbatim>\<open>content.replace(/FLASHCARD_START[\s\S]*?FLASHCARD_END/g, '').trim()\<close>.
\<close>

definition FLASHCARD_START :: string where
  "FLASHCARD_START = ''FLASHCARD_START''"

definition FLASHCARD_END :: string where
  "FLASHCARD_END = ''FLASHCARD_END''"

text \<open>
  The regular expression, as the matcher runs it. \<open>lazy_until lit s\<close> is \<^verbatim>\<open>[\s\S]*?\<close>
  followed by the literal: the lazy quantifier first tries to match the literal where it
  stands, and takes one more character (any code unit) at a time until it does; the result
  is what follows the match, \<open>None\<close> if the literal is never found. \<open>match_block s\<close>
  matches the whole expression at the start of \<open>s\<close>.
\<close>

fun lazy_until :: "string \<Rightarrow> string \<Rightarrow> string option" where
  "lazy_until lit [] = (if lit = [] then Some [] else None)"
| "lazy_until lit (c # cs) =
     (if prefix lit (c # cs) then Some (drop (length lit) (c # cs)) else lazy_until lit cs)"

definition match_block :: "string \<Rightarrow> string option" where
  "match_block s =
     (if prefix FLASHCARD_START s
      then lazy_until FLASHCARD_END (drop (length FLASHCARD_START) s) else None)"

lemma lazy_until_length: "lazy_until lit s = Some r \<Longrightarrow> length r \<le> length s"
  by (induction s) (auto split: if_splits)

lemma match_block_shorter: "match_block s = Some r \<Longrightarrow> length r < length s"
proof -
  assume a: "match_block s = Some r"
  then have p: "prefix FLASHCARD_START s"
    and l: "lazy_until FLASHCARD_END (drop (length FLASHCARD_START) s) = Some r"
    by (auto simp: match_block_def split: if_splits)
  from p have "length FLASHCARD_START \<le> length s" by (rule prefix_length_le)
  then have "length (drop (length FLASHCARD_START) s) < length s"
    by (simp add: FLASHCARD_START_def)
  with lazy_until_length [OF l] show ?thesis by simp
qed

text \<open>
  The global replacement by the empty string: at each position, from left to right, a match
  is dropped and the scan goes on behind it; where nothing matches, the character is kept and
  the scan moves one position on.
\<close>

function strip_blocks :: "string \<Rightarrow> string" where
  "strip_blocks [] = []"
| "strip_blocks (c # cs) =
     (case match_block (c # cs) of
        Some rest \<Rightarrow> strip_blocks rest
      | None \<Rightarrow> c # strip_blocks cs)"
  by pat_completeness auto
termination
  by (relation "measure length") (auto dest: match_block_shorter)

text \<open>
  The flashcard viewer is rendered under \<^verbatim>\<open>hasFlashcards && sessionId\<close>.
\<close>

definition displayContent :: "string \<Rightarrow> string" where
  "displayContent txt = trim (strip_blocks txt)"

definition hasFlashcards :: "string \<Rightarrow> bool" where
  "hasFlashcards txt =
     (js_includes FLASHCARD_START txt \<and> js_includes FLASHCARD_END txt)"

definition flashcardViewerShown :: "string \<Rightarrow> string option \<Rightarrow> bool" where
  "flashcardViewerShown txt sid = (hasFlashcards txt \<and> truthy sid)"

lemma indexOf_le: "indexOf p s = Some i \<Longrightarrow> i + length p \<le> length s"
proof (induction s arbitrary: i)
  case Nil
  then show ?case by (auto split: if_splits)
next
  case (Cons c cs)
  then show ?case by (auto split: if_splits dest: prefix_length_le)
qed

text \<open>
  The specification's reading, to compare with: a delimited block runs from a
  \<^verbatim>\<open>FLASHCARD_START\<close> marker to the first \<^verbatim>\<open>FLASHCARD_END\<close> marker after it, and
  \<open>remove_blocks\<close> is the content with every such block removed, found with
  \<^verbatim>\<open>indexOf\<close> from left to right. \<open>has_block\<close> says that the content holds such a block.
\<close>

function remove_blocks :: "string \<Rightarrow> string" where
  "remove_blocks s =
     (case indexOf FLASHCARD_START s of
        None \<Rightarrow> s
      | Some i \<Rightarrow>
          (case indexOf FLASHCARD_END (drop (i + length FLASHCARD_START) s) of
             None \<Rightarrow> s
           | Some j \<Rightarrow>
               take i s @
               remove_blocks
                 (drop (i + length FLASHCARD_START + j + length FLASHCARD_END) s)))"
  by pat_completeness auto

termination
proof (relation "measure length", goal_cases)
  case 1
  show ?case by simp
next
  case (2 s i j)
  from indexOf_le [OF 2(1)] have "s \<noteq> []" by (auto simp: FLASHCARD_START_def)
  then show ?case by (simp add: FLASHCARD_START_def)
qed

declare remove_blocks.simps [simp del]

definition has_block :: "string \<Rightarrow> bool" where
  "has_block s =
     (case indexOf FLASHCARD_START s of
        None \<Rightarrow> False
      | Some i \<Rightarrow> indexOf FLASHCARD_END (drop (i + length FLASHCARD_START) s) \<noteq> None)"

subsection \<open>The replacement removes the delimited blocks\<close>

lemma lazy_until_indexOf:
  "lazy_until lit t = map_option (\<lambda>j. drop (j + length lit) t) (indexOf lit t)"
  by (induction t) (auto simp: option.map_comp comp_def)

lemma indexOf_drop_None: "indexOf p t = None \<Longrightarrow> indexOf p (drop n t) = None"
proof (induction t arbitrary: n)
  case Nil
  then show ?case by simp
next
  case (Cons c cs)
  then show ?case by (cases n) (auto split: if_splits)
qed

lemma remove_blocks_no_END:
  assumes "indexOf FLASHCARD_END (drop k s) = None" and "k \<le> length FLASHCARD_START"
  shows "remove_blocks s = s"
proof (cases "indexOf FLASHCARD_START s")
  case None
  then show ?thesis by (simp add: remove_blocks.simps [of s])
next
  case (Some i)
  have "drop (i + length FLASHCARD_START) s = drop (i + length FLASHCARD_START - k) (drop k s)"
    using assms(2) by simp
  then have "indexOf FLASHCARD_END (drop (i + length FLASHCARD_START) s) = None"
    using indexOf_drop_None [OF assms(1)] by simp
  with Some show ?thesis by (simp add: remove_blocks.simps [of s])
qed

lemma remove_blocks_Cons:
  assumes "\<not> prefix FLASHCARD_START (c # cs)"
  shows "remove_blocks (c # cs) = c # remove_blocks cs"
proof (cases "indexOf FLASHCARD_START cs")
  case None
  with assms show ?thesis
    by (simp add: remove_blocks.simps [of "c # cs"] remove_blocks.simps [of cs])
next
  case (Some i)
  with assms show ?thesis
    by (simp add: remove_blocks.simps [of "c # cs"] remove_blocks.simps [of cs]
          split: option.splits)
qed

lemma remove_blocks_START_no_END:
  assumes "prefix FLASHCARD_START s"
    and "indexOf FLASHCARD_END (drop (length FLASHCARD_START) s) = None"
  shows "remove_blocks s = s"
  by (rule remove_blocks_no_END [OF assms(2)]) simp

lemma remove_blocks_START_END:
  assumes "prefix FLASHCARD_START s"
    and "indexOf FLASHCARD_END (drop (length FLASHCARD_START) s) = Some j"
  shows "remove_blocks s
           = remove_blocks (drop (j + length FLASHCARD_END) (drop (length FLASHCARD_START) s))"
proof -
  from assms(1) have i0: "indexOf FLASHCARD_START s = Some 0"
    by (cases s) (simp_all add: FLASHCARD_START_def)
  have "drop (0 + length FLASHCARD_START + j + length FLASHCARD_END) s
          = drop (j + length FLASHCARD_END) (drop (length FLASHCARD_START) s)"
    by (simp add: add.commute add.left_commute)
  then show ?thesis
    using i0 assms(2) by (simp add: remove_blocks.simps [of s])
qed

lemma strip_blocks_Cons_None:
  "match_block (c # cs) = None \<Longrightarrow> strip_blocks (c # cs) = c # strip_blocks cs"
  by simp

lemma strip_blocks_Cons_Some:
  "match_block (c # cs) = Some rest \<Longrightarrow> strip_blocks (c # cs) = strip_blocks rest"
  by simp

lemma match_block_eq:
  "match_block s =
     (if prefix FLASHCARD_START s
      then map_option (\<lambda>j. drop (j + length FLASHCARD_END) (drop (length FLASHCARD_START) s))
             (indexOf FLASHCARD_END (drop (length FLASHCARD_START) s))
      else None)"
  unfolding match_block_def lazy_until_indexOf ..

lemma strip_blocks_refines: "strip_blocks s = remove_blocks s"
proof (induction s rule: strip_blocks.induct)
  case 1
  show ?case by (simp add: remove_blocks.simps [of "[]"] FLASHCARD_START_def)
next
  case (2 c cs)
  show ?case
  proof (cases "match_block (c # cs)")
    case (Some rest)
    then have p: "prefix FLASHCARD_START (c # cs)"
      unfolding match_block_eq by (simp split: if_splits)
    from Some p obtain j
      where j: "indexOf FLASHCARD_END (drop (length FLASHCARD_START) (c # cs)) = Some j"
        and rest: "rest = drop (j + length FLASHCARD_END) (drop (length FLASHCARD_START) (c # cs))"
      unfolding match_block_eq by (auto split: if_splits)
    have "strip_blocks (c # cs) = strip_blocks rest"
      by (rule strip_blocks_Cons_Some [OF Some])
    also have "\<dots> = remove_blocks rest"
      by (rule 2(2) [OF Some])
    also have "\<dots> = remove_blocks (c # cs)"
      unfolding rest by (rule remove_blocks_START_END [OF p j, symmetric])
    finally show ?thesis .
  next
    case None
    have "strip_blocks (c # cs) = c # strip_blocks cs"
      by (rule strip_blocks_Cons_None [OF None])
    also have "\<dots> = c # remove_blocks cs"
      by (simp only: 2(1) [OF None])
    also have "\<dots> = remove_blocks (c # cs)"
    proof (cases "prefix FLASHCARD_START (c # cs)")
      case False
      then show ?thesis by (rule remove_blocks_Cons [symmetric])
    next
      case True
      with None have e: "indexOf FLASHCARD_END (drop (length FLASHCARD_START) (c # cs)) = None"
        unfolding match_block_eq by (simp split: if_splits)
      then have "indexOf FLASHCARD_END (drop (length FLASHCARD_START - 1) cs) = None"
        by (simp add: FLASHCARD_START_def)
      then have "remove_blocks cs = cs"
        by (rule remove_blocks_no_END) simp
      then show ?thesis
        by (simp only: remove_blocks_START_no_END [OF True e])
    qed
    finally show ?thesis .
  qed
qed

lemma indexOf_split: "indexOf p s = Some i \<Longrightarrow> s = take i s @ p @ drop (i + length p) s"
proof (induction s arbitrary: i)
  case Nil
  then show ?case by (auto split: if_splits)
next
  case (Cons c cs)
  show ?case
  proof (cases "prefix p (c # cs)")
    case True
    with Cons.prems have "i = 0" by simp
    with True show ?thesis by (auto simp: prefix_def)
  next
    case False
    with Cons.prems obtain j where j: "indexOf p cs = Some j" "i = Suc j" by auto
    from Cons.IH [OF j(1)] j(2) show ?thesis by simp
  qed
qed

lemma has_block_split:
  assumes "has_block c"
  shows "\<exists>pre mid post. c = pre @ FLASHCARD_START @ mid @ FLASHCARD_END @ post
            \<and> remove_blocks c = pre @ remove_blocks post"
proof -
  from assms obtain i j where i: "indexOf FLASHCARD_START c = Some i"
    and j: "indexOf FLASHCARD_END (drop (i + length FLASHCARD_START) c) = Some j"
    by (auto simp: has_block_def split: option.splits)
  let ?r = "drop (i + length FLASHCARD_START) c"
  have 1: "c = take i c @ FLASHCARD_START @ ?r" by (rule indexOf_split [OF i])
  have 2: "?r = take j ?r @ FLASHCARD_END @ drop (j + length FLASHCARD_END) ?r"
    by (rule indexOf_split [OF j])
  have 3: "remove_blocks c = take i c @ remove_blocks (drop (j + length FLASHCARD_END) ?r)"
    using i j by (simp add: remove_blocks.simps [of c] add.commute add.left_commute)
  have "c = take i c @ FLASHCARD_START @ take j ?r @ FLASHCARD_END
              @ drop (j + length FLASHCARD_END) ?r"
    using 1 2 by metis
  with 3 show ?thesis by blast
qed

lemma no_block_remove: "\<not> has_block c \<Longrightarrow> remove_blocks c = c"
  by (simp add: has_block_def remove_blocks.simps [of c] split: option.splits)

lemma missing_marker_no_block:
  "\<not> js_includes FLASHCARD_START c \<or> \<not> js_includes FLASHCARD_END c \<Longrightarrow> \<not> has_block c"
  by (auto simp: js_includes_def has_block_def indexOf_drop_None split: option.splits)

text \<open>
  C2, as amended. The text shown for a message is its content with every delimited
  flashcard block removed (each block running from a \<^verbatim>\<open>FLASHCARD_START\<close> to the first
  \<^verbatim>\<open>FLASHCARD_END\<close> after it, in one pass from left to right) and with leading and
  trailing white space then trimmed. When the content holds such a block, it splits into
  the text before the block, the block and the text after it, and what is shown is the
  trimmed text before the block followed by the remainder treated the same way.
\<close>

theorem flashcard_blocks_stripped:
  "displayContent c = trim (remove_blocks c)
   \<and> (has_block c \<longrightarrow>
        (\<exists>pre mid post. c = pre @ FLASHCARD_START @ mid @ FLASHCARD_END @ post
            \<and> displayContent c = trim (pre @ remove_blocks post)))"
proof -
  have d: "displayContent c = trim (remove_blocks c)"
    by (simp add: displayContent_def strip_blocks_refines)
  have "\<exists>pre mid post. c = pre @ FLASHCARD_START @ mid @ FLASHCARD_END @ post
            \<and> displayContent c = trim (pre @ remove_blocks post)" if "has_block c"
    using has_block_split [OF that] unfolding d by metis
  with d show ?thesis by blast
qed

theorem flashcard_blocks_stripped_witness:
  "has_block ''Intro FLASHCARD_START Q: a FLASHCARD_END''
   \<and> displayContent ''Intro FLASHCARD_START Q: a FLASHCARD_END'' = ''Intro''"
proof -
  have h: "has_block ''Intro FLASHCARD_START Q: a FLASHCARD_END''" by code_simp
  have r: "trim (remove_blocks ''Intro FLASHCARD_START Q: a FLASHCARD_END'') = ''Intro''"
    by code_simp
  from flashcard_blocks_stripped [of "''Intro FLASHCARD_START Q: a FLASHCARD_END''"] h r
  show ?thesis by simp
qed

text \<open>
  The claim as first stated, that the text shown equals the content with the blocks
  removed, fails where white space is left at an end: the explicit \<^verbatim>\<open>trim()\<close> removes it.
\<close>

theorem display_is_trimmed_counterexample:
  "has_block ''FLASHCARD_START Q: a FLASHCARD_END hello''
   \<and> remove_blocks ''FLASHCARD_START Q: a FLASHCARD_END hello'' = '' hello''
   \<and> displayContent ''FLASHCARD_START Q: a FLASHCARD_END hello'' = ''hello''
   \<and> displayContent ''FLASHCARD_START Q: a FLASHCARD_END hello''
       \<noteq> remove_blocks ''FLASHCARD_START Q: a FLASHCARD_END hello''"
  by code_simp

text \<open>
  C3, as amended. For a content with mismatched or missing delimiters (no
  \<^verbatim>\<open>FLASHCARD_START\<close> followed by a \<^verbatim>\<open>FLASHCARD_END\<close>), the text shown is the content
  with leading and trailing white space trimmed, and nothing else removed. When one of the
  two markers does not occur in the content at all, the content has no block and no
  flashcard viewer is shown.
\<close>

theorem no_block_display_trimmed:
  "(\<not> has_block c \<longrightarrow> displayContent c = trim c)
   \<and> (\<not> js_includes FLASHCARD_START c \<or> \<not> js_includes FLASHCARD_END c \<longrightarrow>
        \<not> has_block c \<and> \<not> hasFlashcards c \<and> \<not> flashcardViewerShown c sid)"
  using missing_marker_no_block [of c]
  by (auto simp: displayContent_def strip_blocks_refines no_block_remove
        flashcardViewerShown_def hasFlashcards_def)

theorem no_block_display_trimmed_witness:
  "\<not> has_block ''FLASHCARD_START Q: a''
   \<and> \<not> js_includes FLASHCARD_END ''FLASHCARD_START Q: a''
   \<and> displayContent ''FLASHCARD_START Q: a'' = ''FLASHCARD_START Q: a''
   \<and> \<not> flashcardViewerShown ''FLASHCARD_START Q: a'' (Some ''s1'')"
proof -
  have h: "\<not> js_includes FLASHCARD_END ''FLASHCARD_START Q: a''" by code_simp
  have t: "trim ''FLASHCARD_START Q: a'' = ''FLASHCARD_START Q: a''" by code_simp
  from no_block_display_trimmed [of "''FLASHCARD_START Q: a''" "Some ''s1''"] h t
  show ?thesis by simp
qed

text \<open>
  The claim as first stated fails twice: a content without markers that ends in a space is
  shown trimmed, not unmodified; and a content whose \<^verbatim>\<open>FLASHCARD_END\<close> comes before its
  \<^verbatim>\<open>FLASHCARD_START\<close> has no block, yet both \<^verbatim>\<open>includes\<close> tests succeed and, within a
  session, the viewer is shown.
\<close>

theorem unmodified_text_counterexample:
  "\<not> has_block ''No cards here. ''
   \<and> displayContent ''No cards here. '' = ''No cards here.''
   \<and> displayContent ''No cards here. '' \<noteq> ''No cards here. ''
   \<and> \<not> has_block ''FLASHCARD_END Q: a FLASHCARD_START''
   \<and> flashcardViewerShown ''FLASHCARD_END Q: a FLASHCARD_START'' (Some ''s1'')"
  by code_simp

text \<open>
  The replacement is a single pass: text that only becomes a block once a block between
  its parts has been removed stays in what is shown.
\<close>

lemma strip_blocks_single_pass:
  "displayContent ''FLASHCARD_FLASHCARD_START x FLASHCARD_ENDSTART x FLASHCARD_END''
     = ''FLASHCARD_START x FLASHCARD_END''"
  by code_simp

section \<open>Chat messages: source lines\<close>

text \<open>
  ReactMarkdown renders each paragraph of \<^verbatim>\<open>displayContent\<close> through the \<^verbatim>\<open>p\<close> component
  of \<^verbatim>\<open>ChatMessage\<close>, which receives the paragraph's children. When the first child is a
  string that, trimmed, starts with \<^verbatim>\<open>Source:\<close>, the component matches it against
  \<^verbatim>\<open>/Source:\s*\[([^\]]+\.pdf),\s*p\.(\d+)\]/i\<close> and, on a match, renders a button that opens
  the cited file at the cited page in place of the paragraph's children.

  The expression carries the flag \<^verbatim>\<open>i\<close>: two characters match when their canonical forms
  agree. \<open>canon\<close> folds the ASCII letters to upper case, which is what the canonical form
  is in every comparison with a character of this pattern, all of them ASCII.
\<close>

definition canon :: "char \<Rightarrow> char" where
  "canon c =
     (case map_of (zip ''abcdefghijklmnopqrstuvwxyz'' ''ABCDEFGHIJKLMNOPQRSTUVWXYZ'') c of
        Some u \<Rightarrow> u
      | None \<Rightarrow> c)"

definition is_digit :: "char \<Rightarrow> bool" where
  "is_digit c = (c = CHR ''0'' \<or> c = CHR ''1'' \<or> c = CHR ''2'' \<or> c = CHR ''3'' \<or> c = CHR ''4''
                 \<or> c = CHR ''5'' \<or> c = CHR ''6'' \<or> c = CHR ''7'' \<or> c = CHR ''8'' \<or> c = CHR ''9'')"

text \<open>
  The matcher, as a backtracking matcher runs the expression. \<open>lit p s\<close> matches the
  literal \<open>p\<close> at the start of \<open>s\<close> and returns the text matched and the rest.
  \<open>star P k s\<close> is a greedy \<^verbatim>\<open>*\<close> over the character class \<open>P\<close> followed by the rest
  of the expression \<open>k\<close>, which receives the text matched and the rest: it takes as many
  characters as it can and gives them back one at a time while \<open>k\<close> fails. \<open>plus\<close> is
  \<^verbatim>\<open>+\<close>. \<open>page_tail\<close> is \<^verbatim>\<open>,\s*p\.(\d+)\]\<close>, \<open>name_tail\<close> is what follows
  \<^verbatim>\<open>[^\]]+\<close> inside the first group, and \<open>source_regex_at\<close> is the whole expression at
  the start of the string; the result is the pair of the two groups.
\<close>

fun lit :: "string \<Rightarrow> string \<Rightarrow> (string \<times> string) option" where
  "lit [] s = Some ([], s)"
| "lit (p # ps) [] = None"
| "lit (p # ps) (c # cs) =
     (if canon c = canon p then map_option (\<lambda>(m, r). (c # m, r)) (lit ps cs) else None)"

fun star :: "(char \<Rightarrow> bool) \<Rightarrow> (string \<Rightarrow> string \<Rightarrow> 'a option) \<Rightarrow> string \<Rightarrow> 'a option" where
  "star P k [] = k [] []"
| "star P k (c # cs) =
     (if P c
      then (case star P (\<lambda>m. k (c # m)) cs of
              Some r \<Rightarrow> Some r
            | None \<Rightarrow> k [] (c # cs))
      else k [] (c # cs))"

definition plus :: "(char \<Rightarrow> bool) \<Rightarrow> (string \<Rightarrow> string \<Rightarrow> 'a option) \<Rightarrow> string \<Rightarrow> 'a option" where
  "plus P k s =
     (case s of [] \<Rightarrow> None | c # cs \<Rightarrow> if P c then star P (\<lambda>m. k (c # m)) cs else None)"

definition page_tail :: "string \<Rightarrow> string option" where
  "page_tail s =
     (case lit '','' s of
        None \<Rightarrow> None
      | Some (_, s1) \<Rightarrow>
          star is_space
            (\<lambda>_ s2. case lit ''p.'' s2 of
                       None \<Rightarrow> None
                     | Some (_, s3) \<Rightarrow>
                         plus is_digit
                           (\<lambda>digits s4. case lit '']'' s4 of
                                            None \<Rightarrow> None
                                          | Some _ \<Rightarrow> Some digits)
                           s3)
            s1)"

definition name_tail :: "string \<Rightarrow> string \<Rightarrow> (string \<times> string) option" where
  "name_tail name s =
     (case lit ''.pdf'' s of
        None \<Rightarrow> None
      | Some (ext, s1) \<Rightarrow> map_option (\<lambda>digits. (name @ ext, digits)) (page_tail s1))"

definition source_regex_at :: "string \<Rightarrow> (string \<times> string) option" where
  "source_regex_at s =
     (case lit ''Source:'' s of
        None \<Rightarrow> None
      | Some (_, s1) \<Rightarrow>
          star is_space
            (\<lambda>_ s2. case lit ''['' s2 of
                       None \<Rightarrow> None
                     | Some (_, s3) \<Rightarrow> plus (\<lambda>c. c \<noteq> CHR '']'') name_tail s3)
            s1)"

text \<open>
  \<^verbatim>\<open>sourceText.match(...)\<close>: the expression is not anchored, so the first position at
  which it matches counts.
\<close>

fun source_regex_match :: "string \<Rightarrow> (string \<times> string) option" where
  "source_regex_match [] = source_regex_at []"
| "source_regex_match (c # cs) =
     (case source_regex_at (c # cs) of
        Some groups \<Rightarrow> Some groups
      | None \<Rightarrow> source_regex_match cs)"

text \<open>
  \<^verbatim>\<open>parseInt(match[2], 10)\<close> on a string of decimal digits. The result is a JavaScript
  number, which holds the value exactly up to \<open>2 ^ 53\<close>; the model gives the exact value
  throughout, and the statements below keep to that range.
\<close>

definition digit_value :: "char \<Rightarrow> nat" where
  "digit_value c = of_char c - 48"

definition parseInt10 :: "string \<Rightarrow> nat" where
  "parseInt10 digits = foldl (\<lambda>n c. 10 * n + digit_value c) 0 digits"

text \<open>
  A child of a rendered element is a string, a number or another node; the component
  takes its children as a list (\<^verbatim>\<open>childrenArray\<close>, a single child being a list of one),
  and its first child is the head of the list, if any. The component returns either the citation button, with the \<^verbatim>\<open>Citation\<close> its click handler opens and
  the children \<^verbatim>\<open>Source: [{filename}, p.{pageNum}]\<close>, or a paragraph of the children it
  was given, styled as a source line or not.
\<close>

datatype child = Text string | Number nat | Element

datatype p_rendered =
    CitationButton citation "child list"
  | Paragraph bool "child list"

definition p_render :: "child list \<Rightarrow> p_rendered" where
  "p_render children =
     (case children of
        Text firstChild # _ \<Rightarrow>
          if prefix ''Source:'' (trim firstChild) then
            (case source_regex_match (trim firstChild) of
               Some (filename, digits) \<Rightarrow>
                 CitationButton
                   \<lparr>cit_file = filename, cit_page = parseInt10 digits, cit_lines = []\<rparr>
                   [Text ''Source: ['', Text filename, Text '', p.'',
                    Number (parseInt10 digits), Text '']'']
             | None \<Rightarrow> Paragraph True children)
          else Paragraph False children
      | _ \<Rightarrow> Paragraph False children)"

subsection \<open>Greedy matching and backtracking\<close>

lemma lit_match: "map canon m = map canon p \<Longrightarrow> lit p (m @ r) = Some (m, r)"
proof (induction p arbitrary: m)
  case Nil
  then show ?case by simp
next
  case (Cons a p)
  then obtain c m' where m: "m = c # m'" "canon c = canon a" "map canon m' = map canon p"
    by (cases m) auto
  with Cons.IH [of m'] show ?case by simp
qed

lemma star_greedy:
  "list_all P m \<Longrightarrow> r = [] \<or> \<not> P (hd r) \<Longrightarrow> k m r = Some x \<Longrightarrow> star P k (m @ r) = Some x"
proof (induction m arbitrary: k)
  case Nil
  then show ?case by (cases r) auto
next
  case (Cons a m)
  from Cons.prems have "star P (\<lambda>m'. k (a # m')) (m @ r) = Some x"
    by (intro Cons.IH) auto
  with Cons.prems show ?case by simp
qed

lemma star_all_fail:
  "list_all P b \<Longrightarrow> r = [] \<or> \<not> P (hd r) \<Longrightarrow> (\<And>b1 b2. b = b1 @ b2 \<Longrightarrow> k b1 (b2 @ r) = None)
     \<Longrightarrow> star P k (b @ r) = None"
proof (induction b arbitrary: k)
  case Nil
  from Nil(3) [of "[]" "[]"] have "k [] r = None" by simp
  with Nil(2) show ?case by (cases r) auto
next
  case (Cons a b)
  have "star P (\<lambda>m'. k (a # m')) (b @ r) = None"
  proof (rule Cons.IH)
    show "list_all P b" using Cons.prems(1) by simp
    show "r = [] \<or> \<not> P (hd r)" by (rule Cons.prems(2))
    show "k (a # b1) (b2 @ r) = None" if "b = b1 @ b2" for b1 b2
      using Cons.prems(3) [of "a # b1" b2] that by simp
  qed
  moreover have "k [] (a # b @ r) = None"
    using Cons.prems(3) [of "[]" "a # b"] by simp
  ultimately show ?case by simp
qed

lemma star_backtrack:
  "list_all P a \<Longrightarrow> list_all P b \<Longrightarrow> r = [] \<or> \<not> P (hd r) \<Longrightarrow> k a (b @ r) = Some x
     \<Longrightarrow> (\<And>b1 b2. b = b1 @ b2 \<Longrightarrow> b1 \<noteq> [] \<Longrightarrow> k (a @ b1) (b2 @ r) = None)
     \<Longrightarrow> star P k (a @ b @ r) = Some x"
proof (induction a arbitrary: k)
  case Nil
  show ?case
  proof (cases b)
    case Nil
    with Nil.prems(3,4) show ?thesis by (cases r) auto
  next
    case (Cons c b')
    have "star P (\<lambda>m'. k (c # m')) (b' @ r) = None"
    proof (rule star_all_fail)
      show "list_all P b'" using Nil.prems(2) Cons by simp
      show "r = [] \<or> \<not> P (hd r)" by (rule Nil.prems(3))
      show "k (c # b1) (b2 @ r) = None" if "b' = b1 @ b2" for b1 b2
        using Nil.prems(5) [of "c # b1" b2] that Cons by simp
    qed
    with Nil.prems(4) Cons show ?thesis by simp
  qed
next
  case (Cons c a)
  have "star P (\<lambda>m'. k (c # m')) (a @ b @ r) = Some x"
  proof (rule Cons.IH)
    show "list_all P a" using Cons.prems(1) by simp
    show "list_all P b" by (rule Cons.prems(2))
    show "r = [] \<or> \<not> P (hd r)" by (rule Cons.prems(3))
    show "k (c # a) (b @ r) = Some x" by (rule Cons.prems(4))
    show "k (c # a @ b1) (b2 @ r) = None" if "b = b1 @ b2" "b1 \<noteq> []" for b1 b2
      using Cons.prems(5) [OF that] by simp
  qed
  with Cons.prems(1) show ?case by simp
qed

lemma plus_greedy:
  "m \<noteq> [] \<Longrightarrow> list_all P m \<Longrightarrow> r = [] \<or> \<not> P (hd r) \<Longrightarrow> k m r = Some x
     \<Longrightarrow> plus P k (m @ r) = Some x"
proof -
  assume a: "m \<noteq> []" "list_all P m" "r = [] \<or> \<not> P (hd r)" "k m r = Some x"
  then obtain c m' where m: "m = c # m'" by (cases m) auto
  from a m have "star P (\<lambda>n. k (c # n)) (m' @ r) = Some x"
    by (intro star_greedy) auto
  with a m show ?thesis by (simp add: plus_def)
qed

lemma plus_backtrack:
  "a \<noteq> [] \<Longrightarrow> list_all P a \<Longrightarrow> list_all P b \<Longrightarrow> r = [] \<or> \<not> P (hd r) \<Longrightarrow> k a (b @ r) = Some x
     \<Longrightarrow> (\<And>b1 b2. b = b1 @ b2 \<Longrightarrow> b1 \<noteq> [] \<Longrightarrow> k (a @ b1) (b2 @ r) = None)
     \<Longrightarrow> plus P k (a @ b @ r) = Some x"
proof -
  assume a: "a \<noteq> []" "list_all P a" "list_all P b" "r = [] \<or> \<not> P (hd r)"
    "k a (b @ r) = Some x"
    and f: "\<And>b1 b2. b = b1 @ b2 \<Longrightarrow> b1 \<noteq> [] \<Longrightarrow> k (a @ b1) (b2 @ r) = None"
  from a(1) obtain c a' where c: "a = c # a'" by (cases a) auto
  have "star P (\<lambda>n. k (c # n)) (a' @ b @ r) = Some x"
  proof (rule star_backtrack)
    show "list_all P a'" using a(2) c by simp
    show "list_all P b" by (rule a(3))
    show "r = [] \<or> \<not> P (hd r)" by (rule a(4))
    show "k (c # a') (b @ r) = Some x" using a(5) c by simp
    show "k (c # a' @ b1) (b2 @ r) = None" if "b = b1 @ b2" "b1 \<noteq> []" for b1 b2
      using f [OF that] c by simp
  qed
  with a(2) c show ?thesis by (simp add: plus_def)
qed

lemma trim_id: "s \<noteq> [] \<Longrightarrow> \<not> is_space (hd s) \<Longrightarrow> \<not> is_space (last s) \<Longrightarrow> trim s = s"
proof -
  assume a: "s \<noteq> []" "\<not> is_space (hd s)" "\<not> is_space (last s)"
  then have 1: "dropWhile is_space s = s" by (cases s) auto
  from a have "rev s \<noteq> []" "\<not> is_space (hd (rev s))" by (simp_all add: hd_rev)
  then have 2: "dropWhile is_space (rev s) = rev s" by (cases "rev s") auto
  show ?thesis by (simp add: trim_def 1 2)
qed

subsection \<open>Source lines that match\<close>

declare star.simps [simp del]

lemma canon_consts:
  "canon CHR ''.'' = CHR ''.''" "canon CHR ''p'' = CHR ''P''" "canon CHR ''d'' = CHR ''D''"
  "canon CHR ''f'' = CHR ''F''" "canon CHR '','' = CHR '',''" "canon CHR '' '' = CHR '' ''"
  "canon CHR '']'' = CHR '']''"
  by (simp_all add: canon_def)

lemma canon_digit: "is_digit c \<Longrightarrow> canon c = c"
  unfolding is_digit_def by (elim disjE) (simp_all add: canon_def)

lemma digit_not_dot: "is_digit c \<Longrightarrow> c \<noteq> CHR ''.'' \<and> c \<noteq> CHR ''P'' \<and> c \<noteq> CHR '']''"
  by (auto simp: is_digit_def)

lemma page_tail_ok:
  assumes "ds \<noteq> []" and "list_all is_digit ds"
  shows "page_tail (CHR '','' # CHR '' '' # CHR ''p'' # CHR ''.'' # ds @ CHR '']'' # rest) = Some ds"
proof -
  let ?k3 = "\<lambda>digits s4. case lit '']'' s4 of None \<Rightarrow> None | Some _ \<Rightarrow> Some digits"
  let ?k2 = "\<lambda>(_::string) s2. case lit ''p.'' s2 of None \<Rightarrow> None
               | Some (_, s3) \<Rightarrow> plus is_digit ?k3 s3"
  have 3: "plus is_digit ?k3 (ds @ CHR '']'' # rest) = Some ds"
    using assms by (intro plus_greedy) (simp_all add: is_digit_def)
  have "star is_space ?k2 ([CHR '' ''] @ CHR ''p'' # CHR ''.'' # ds @ CHR '']'' # rest) = Some ds"
    by (rule star_greedy) (simp_all add: is_space_def 3)
  then show ?thesis by (simp add: page_tail_def)
qed

lemma name_tail_ok:
  assumes "map canon ext = map canon ''.pdf''" and "ds \<noteq> []" and "list_all is_digit ds"
  shows "name_tail name (ext @ CHR '','' # CHR '' '' # CHR ''p'' # CHR ''.'' # ds @ CHR '']'' # rest)
           = Some (name @ ext, ds)"
  by (simp add: name_tail_def lit_match [OF assms(1)] page_tail_ok [OF assms(2,3)])

lemma pdf_suffix_fail:
  assumes "map canon ext = map canon ''.pdf''" and "ds \<noteq> []" and "list_all is_digit ds"
    and "ext @ CHR '','' # CHR '' '' # CHR ''p'' # CHR ''.'' # ds = b1 @ b2" and "b1 \<noteq> []"
  shows "lit ''.pdf'' (b2 @ CHR '']'' # rest) = None"
proof -
  from assms(1) obtain e1 e2 e3 e4 where ext: "ext = [e1, e2, e3, e4]"
    and e: "canon e2 = CHR ''P''" "canon e3 = CHR ''D''" "canon e4 = CHR ''F''"
    by (auto simp: map_eq_Cons_conv canon_consts)
  from assms(2,3) obtain d ds' where ds: "ds = d # ds'" "is_digit d" by (cases ds) auto
  from assms(4,5) consider
      "b2 = e2 # e3 # e4 # CHR '','' # CHR '' '' # CHR ''p'' # CHR ''.'' # ds"
    | "b2 = e3 # e4 # CHR '','' # CHR '' '' # CHR ''p'' # CHR ''.'' # ds"
    | "b2 = e4 # CHR '','' # CHR '' '' # CHR ''p'' # CHR ''.'' # ds"
    | "b2 = CHR '','' # CHR '' '' # CHR ''p'' # CHR ''.'' # ds"
    | "b2 = CHR '' '' # CHR ''p'' # CHR ''.'' # ds"
    | "b2 = CHR ''p'' # CHR ''.'' # ds"
    | "b2 = CHR ''.'' # ds"
    | u where "ds = u @ b2"
    unfolding ext by (auto simp: Cons_eq_append_conv)
  then show ?thesis
  proof cases
    case 8
    with assms(3) have "list_all is_digit b2" by simp
    then show ?thesis
      by (cases b2) (auto simp: canon_consts canon_digit digit_not_dot)
  qed (use e ds in \<open>simp_all add: canon_consts canon_digit digit_not_dot\<close>)
qed

lemma pdf_ext_chars:
  assumes "map canon ext = map canon ''.pdf''"
  shows "list_all (\<lambda>c. c \<noteq> CHR '']'') ext"
proof -
  have "c \<noteq> CHR '']''" if "c \<in> set ext" for c
  proof
    assume "c = CHR '']''"
    with that have "canon CHR '']'' \<in> set (map canon ext)" by auto
    then show False unfolding assms by (simp add: canon_consts)
  qed
  then show ?thesis by (auto simp: list_all_iff)
qed

lemma name_plus_ok:
  assumes "name \<noteq> []" and "CHR '']'' \<notin> set name" and "map canon ext = map canon ''.pdf''"
    and "ds \<noteq> []" and "list_all is_digit ds"
  shows "plus (\<lambda>c. c \<noteq> CHR '']'') name_tail
           (name @ ext @ CHR '','' # CHR '' '' # CHR ''p'' # CHR ''.'' # ds @ [CHR '']''])
         = Some (name @ ext, ds)"
proof -
  let ?b = "ext @ CHR '','' # CHR '' '' # CHR ''p'' # CHR ''.'' # ds"
  have ds_nb: "list_all (\<lambda>c. c \<noteq> CHR '']'') ds"
    using assms(5) by (induction ds) (auto simp: digit_not_dot)
  have "plus (\<lambda>c. c \<noteq> CHR '']'') name_tail (name @ ?b @ [CHR '']'']) = Some (name @ ext, ds)"
  proof (rule plus_backtrack)
    show "name \<noteq> []" by (rule assms(1))
    show "list_all (\<lambda>c. c \<noteq> CHR '']'') name" using assms(2) by (auto simp: list_all_iff)
    show "list_all (\<lambda>c. c \<noteq> CHR '']'') ?b" using pdf_ext_chars [OF assms(3)] ds_nb by simp
    show "[CHR '']''] = [] \<or> \<not> hd [CHR '']''] \<noteq> CHR '']''" by simp
    show "name_tail name (?b @ [CHR '']'']) = Some (name @ ext, ds)"
      using name_tail_ok [OF assms(3,4,5), of name "[]"] by simp
    show "name_tail (name @ b1) (b2 @ [CHR '']'']) = None" if "?b = b1 @ b2" "b1 \<noteq> []" for b1 b2
      using pdf_suffix_fail [OF assms(3,4,5) that, of "[]"] by (simp add: name_tail_def)
  qed
  then show ?thesis by simp
qed

lemma source_regex_at_ok:
  assumes "name \<noteq> []" and "CHR '']'' \<notin> set name" and "map canon ext = map canon ''.pdf''"
    and "ds \<noteq> []" and "list_all is_digit ds"
  shows "source_regex_at (''Source: ['' @ name @ ext @ '', p.'' @ ds @ '']'') = Some (name @ ext, ds)"
proof -
  let ?k1 = "\<lambda>(_::string) s2. case lit ''['' s2 of None \<Rightarrow> None
               | Some (_, s3) \<Rightarrow> plus (\<lambda>c. c \<noteq> CHR '']'') name_tail s3"
  have "star is_space ?k1
          ([CHR '' ''] @ CHR ''['' # name @ ext @ CHR '','' # CHR '' '' # CHR ''p'' # CHR ''.'' # ds
             @ [CHR '']''])
        = Some (name @ ext, ds)"
    by (rule star_greedy) (simp_all add: is_space_def name_plus_ok [OF assms])
  then show ?thesis by (simp add: source_regex_at_def)
qed

lemma source_regex_match_first:
  "source_regex_at s = Some groups \<Longrightarrow> source_regex_match s = Some groups"
  by (cases s) simp_all

lemma source_line_trim:
  "trim (''Source: ['' @ name @ ext @ '', p.'' @ ds @ '']'')
     = ''Source: ['' @ name @ ext @ '', p.'' @ ds @ '']''"
  by (rule trim_id) (simp_all add: is_space_def)

text \<open>
  C1, as amended. A paragraph whose first child is the text
  \<^verbatim>\<open>Source: [<filename>, p.<n>]\<close>, where the file name ends in \<^verbatim>\<open>.pdf\<close> in any letter
  case, has at least one character before that ending and contains no \<^verbatim>\<open>]\<close>, and \<open>n\<close> is
  a non-empty string of decimal digits (of value at most \<open>2 ^ 53\<close>), is rendered as exactly
  one citation button whose \<^verbatim>\<open>Citation\<close> has that file name and the page \<open>n\<close>, and whose
  only visible text is the citation form; the paragraph's own children are not rendered
  beside it. A paragraph whose first child is not a string, or is a string that does not
  start with \<^verbatim>\<open>Source:\<close> once trimmed, is rendered as it is, with no citation.
\<close>

theorem source_paragraph_is_citation:
  "(name \<noteq> [] \<and> CHR '']'' \<notin> set name \<and> map canon ext = map canon ''.pdf''
      \<and> ds \<noteq> [] \<and> list_all is_digit ds \<and> parseInt10 ds \<le> 2 ^ 53
    \<longrightarrow> p_render (Text (''Source: ['' @ name @ ext @ '', p.'' @ ds @ '']'') # others)
          = CitationButton
              \<lparr>cit_file = name @ ext, cit_page = parseInt10 ds, cit_lines = []\<rparr>
              [Text ''Source: ['', Text (name @ ext), Text '', p.'', Number (parseInt10 ds),
               Text '']''])
   \<and> (\<not> prefix ''Source:'' (trim t) \<longrightarrow> p_render (Text t # others) = Paragraph False (Text t # others))
   \<and> p_render (Number n # others) = Paragraph False (Number n # others)
   \<and> p_render (Element # others) = Paragraph False (Element # others)
   \<and> p_render [] = Paragraph False []"
proof -
  let ?s = "''Source: ['' @ name @ ext @ '', p.'' @ ds @ '']''"
  have "p_render (Text ?s # others)
          = CitationButton
              \<lparr>cit_file = name @ ext, cit_page = parseInt10 ds, cit_lines = []\<rparr>
              [Text ''Source: ['', Text (name @ ext), Text '', p.'', Number (parseInt10 ds),
               Text '']'']"
    if a: "name \<noteq> []" "CHR '']'' \<notin> set name" "map canon ext = map canon ''.pdf''"
      "ds \<noteq> []" "list_all is_digit ds"
  proof -
    have m: "source_regex_match ?s = Some (name @ ext, ds)"
      by (rule source_regex_match_first) (rule source_regex_at_ok [OF a])
    have p: "prefix ''Source:'' ?s" by simp
    show ?thesis
      unfolding p_render_def list.case child.case source_line_trim m
      using p by simp
  qed
  moreover have "p_render (Text t # others) = Paragraph False (Text t # others)"
    if "\<not> prefix ''Source:'' (trim t)"
    using that by (simp add: p_render_def)
  moreover have "p_render (Number n # others) = Paragraph False (Number n # others)"
    "p_render (Element # others) = Paragraph False (Element # others)"
    "p_render [] = Paragraph False []"
    by (simp_all add: p_render_def)
  ultimately show ?thesis by blast
qed

theorem source_paragraph_is_citation_witness:
  "p_render [Text ''Source: [report.pdf, p.4]'']
     = CitationButton \<lparr>cit_file = ''report.pdf'', cit_page = 4, cit_lines = []\<rparr>
         [Text ''Source: ['', Text ''report.pdf'', Text '', p.'', Number 4, Text '']'']
   \<and> \<not> prefix ''Source:'' (trim ''See report.pdf, page 4.'')
   \<and> p_render [Text ''See report.pdf, page 4.''] = Paragraph False [Text ''See report.pdf, page 4.'']"
proof -
  have c: "map canon ''.pdf'' = map canon ''.pdf''" by simp
  have d: "list_all is_digit ''4''" by (simp add: is_digit_def)
  have v: "parseInt10 ''4'' = 4" by code_simp
  have t: "trim ''See report.pdf, page 4.'' = ''See report.pdf, page 4.''" by code_simp
  from source_paragraph_is_citation
         [of "''report''" "''.pdf''" "''4''" "[]" "''See report.pdf, page 4.''"] c d v t
  show ?thesis by simp
qed

text \<open>
  The claim as first stated, for every file name, fails: a source line naming a file that
  does not end in \<^verbatim>\<open>.pdf\<close>, or a file whose name contains \<^verbatim>\<open>]\<close>, matches nowhere and
  stays a plain paragraph with no citation.
\<close>

theorem source_not_pdf_counterexample:
  "p_render [Text ''Source: [notes.txt, p.4]''] = Paragraph True [Text ''Source: [notes.txt, p.4]'']
   \<and> p_render [Text ''Source: [report[1].pdf, p.4]'']
       = Paragraph True [Text ''Source: [report[1].pdf, p.4]'']"
  by code_simp

section \<open>The Relevance Gate\<close>

text \<open>
  Modelled from the spec: the Relevance Gate \<^verbatim>\<open>decide\<close> of the query pipeline, which runs
  in the backend's chat route; the backend is not among the sources, so the gate follows
  sections 4.5 and 7 of the specification. A document has a lifecycle status, and the user
  has documents when one of them is completed. \<open>top_score\<close> stands for retrieval, the
  similarity score of the best chunk found for the query in the corpus, and \<open>threshold\<close>
  for the configured threshold. The decision comes with the caveat flag that study mode
  sets on a weak corpus.

  The specification classifies the corpus two ways, by a score above the threshold or as
  weak, and requires the gate to resolve on every input (section 7: there is no unknown
  outcome). A score that is not above the threshold, the threshold itself included, is
  therefore a weak corpus. There is one rule for each of: no completed document; a score
  above the threshold; a weak corpus in a mode that permits augmentation (casual,
  research); a weak corpus in study mode. \<^verbatim>\<open>WEB_ONLY\<close> is a value of the decision type, as
  the contract lists it; the specification states no condition under which the gate
  chooses it, and so the model has no rule for it.
\<close>

datatype doc_status = Pending | Processing | Completed | Failed

record document =
  doc_filename :: string
  doc_status :: doc_status

definition user_has_documents :: "document list \<Rightarrow> bool" where
  "user_has_documents docs = list_ex (\<lambda>d. doc_status d = Completed) docs"

datatype routing_decision = NO_CORPUS | RAG_ONLY | RAG_PLUS_WEB | WEB_ONLY

inductive decide ::
  "(string \<Rightarrow> document list \<Rightarrow> int) \<Rightarrow> int \<Rightarrow> string \<Rightarrow> document list \<Rightarrow> session_mode
     \<Rightarrow> routing_decision \<times> bool \<Rightarrow> bool"
  for top_score :: "string \<Rightarrow> document list \<Rightarrow> int" and threshold :: int
  where
    no_corpus:
      "\<not> user_has_documents docs \<Longrightarrow> decide top_score threshold q docs mode (NO_CORPUS, False)"
  | above_threshold:
      "user_has_documents docs \<Longrightarrow> threshold < top_score q docs
         \<Longrightarrow> decide top_score threshold q docs mode (RAG_ONLY, False)"
  | weak_augment:
      "user_has_documents docs \<Longrightarrow> \<not> threshold < top_score q docs
         \<Longrightarrow> mode = Casual \<or> mode = Research
         \<Longrightarrow> decide top_score threshold q docs mode (RAG_PLUS_WEB, False)"
  | weak_study:
      "user_has_documents docs \<Longrightarrow> \<not> threshold < top_score q docs \<Longrightarrow> mode = Study
         \<Longrightarrow> decide top_score threshold q docs mode (RAG_ONLY, True)"

code_pred decide .

lemma decide_functional:
  "decide ts th q docs m r \<Longrightarrow> decide ts th q docs m r' \<Longrightarrow> r = r'"
  by (induction rule: decide.induct) (auto elim: decide.cases)

lemma decide_total: "\<exists>r. decide ts th q docs m r"
proof (cases "user_has_documents docs")
  case False
  then show ?thesis by (blast intro: decide.no_corpus)
next
  case docs: True
  show ?thesis
  proof (cases "th < ts q docs")
    case True
    with docs show ?thesis by (blast intro: decide.above_threshold)
  next
    case False
    with docs show ?thesis
      by (cases m) (blast intro: decide.weak_augment decide.weak_study)+
  qed
qed

lemma decide_range:
  "decide ts th q docs m (d, c) \<Longrightarrow> d = NO_CORPUS \<or> d = RAG_ONLY \<or> d = RAG_PLUS_WEB"
  by (auto elim: decide.cases)

text \<open>
  C6. The Relevance Gate is deterministic and always resolves: every input (query, corpus
  state, mode, with the same retrieval and threshold) has a decision, that decision is one
  of the four values \<^verbatim>\<open>NO_CORPUS\<close>, \<^verbatim>\<open>RAG_ONLY\<close>, \<^verbatim>\<open>RAG_PLUS_WEB\<close>, \<^verbatim>\<open>WEB_ONLY\<close>, and
  every decision the gate reaches on that input is the same one, caveat flag included. The
  decision is \<^verbatim>\<open>NO_CORPUS\<close> without a completed document, \<^verbatim>\<open>RAG_ONLY\<close> above the
  threshold, and on a weak corpus \<^verbatim>\<open>RAG_ONLY\<close> with the caveat in study mode and
  \<^verbatim>\<open>RAG_PLUS_WEB\<close> in the other two modes.
\<close>

theorem relevance_gate_deterministic:
  "(\<exists>d c. decide ts th q docs m (d, c)
           \<and> (d = NO_CORPUS \<or> d = RAG_ONLY \<or> d = RAG_PLUS_WEB \<or> d = WEB_ONLY)
           \<and> (\<forall>d' c'. decide ts th q docs m (d', c') \<longrightarrow> d' = d \<and> c' = c))
   \<and> (\<not> user_has_documents docs \<longrightarrow> decide ts th q docs m (NO_CORPUS, False))
   \<and> (user_has_documents docs \<and> th < ts q docs \<longrightarrow> decide ts th q docs m (RAG_ONLY, False))
   \<and> (user_has_documents docs \<and> \<not> th < ts q docs \<and> m = Study
        \<longrightarrow> decide ts th q docs m (RAG_ONLY, True))
   \<and> (user_has_documents docs \<and> \<not> th < ts q docs \<and> m \<noteq> Study
        \<longrightarrow> decide ts th q docs m (RAG_PLUS_WEB, False))"
proof -
  from decide_total obtain d c where r: "decide ts th q docs m (d, c)" by fastforce
  have range: "d = NO_CORPUS \<or> d = RAG_ONLY \<or> d = RAG_PLUS_WEB \<or> d = WEB_ONLY"
    using decide_range [OF r] by blast
  have unique: "d' = d \<and> c' = c" if "decide ts th q docs m (d', c')" for d' c'
    using decide_functional [OF that r] by simp
  have 1: "\<exists>d c. decide ts th q docs m (d, c)
           \<and> (d = NO_CORPUS \<or> d = RAG_ONLY \<or> d = RAG_PLUS_WEB \<or> d = WEB_ONLY)
           \<and> (\<forall>d' c'. decide ts th q docs m (d', c') \<longrightarrow> d' = d \<and> c' = c)"
    using r range unique by blast
  have 2: "\<not> user_has_documents docs \<longrightarrow> decide ts th q docs m (NO_CORPUS, False)"
    by (blast intro: decide.no_corpus)
  have 3: "user_has_documents docs \<and> th < ts q docs \<longrightarrow> decide ts th q docs m (RAG_ONLY, False)"
    by (blast intro: decide.above_threshold)
  have 4: "user_has_documents docs \<and> \<not> th < ts q docs \<and> m = Study
             \<longrightarrow> decide ts th q docs m (RAG_ONLY, True)"
    by (blast intro: decide.weak_study)
  have 5: "user_has_documents docs \<and> \<not> th < ts q docs \<and> m \<noteq> Study
             \<longrightarrow> decide ts th q docs m (RAG_PLUS_WEB, False)"
    by (cases m) (blast intro: decide.weak_augment)+
  from 1 2 3 4 5 show ?thesis by blast
qed

theorem relevance_gate_deterministic_witness:
  "user_has_documents [\<lparr>doc_filename = ''france.pdf'', doc_status = Completed\<rparr>]
   \<and> \<not> (50::int) < 50
   \<and> decide (\<lambda>q docs. 50) 50 ''capital of France''
       [\<lparr>doc_filename = ''france.pdf'', doc_status = Completed\<rparr>] Study (RAG_ONLY, True)
   \<and> \<not> decide (\<lambda>q docs. 50) 50 ''capital of France''
       [\<lparr>doc_filename = ''france.pdf'', doc_status = Completed\<rparr>] Study (RAG_PLUS_WEB, False)
   \<and> \<not> user_has_documents [\<lparr>doc_filename = ''draft.pdf'', doc_status = Failed\<rparr>]
   \<and> decide (\<lambda>q docs. 50) 50 ''capital of France''
       [\<lparr>doc_filename = ''draft.pdf'', doc_status = Failed\<rparr>] Research (NO_CORPUS, False)"
proof -
  let ?docs = "[\<lparr>doc_filename = ''france.pdf'', doc_status = Completed\<rparr>]"
  let ?none = "[\<lparr>doc_filename = ''draft.pdf'', doc_status = Failed\<rparr>]"
  have h: "user_has_documents ?docs" by (simp add: user_has_documents_def)
  have e: "\<not> user_has_documents ?none" by (simp add: user_has_documents_def)
  from relevance_gate_deterministic [of "\<lambda>q docs. 50" 50 "''capital of France''" ?docs Study] h
  have 1: "decide (\<lambda>q docs. 50) 50 ''capital of France'' ?docs Study (RAG_ONLY, True)"
    and u: "\<exists>d c. \<forall>d' c'. decide (\<lambda>q docs. 50) 50 ''capital of France'' ?docs Study (d', c')
                \<longrightarrow> d' = d \<and> c' = c"
    by auto
  have 2: "\<not> decide (\<lambda>q docs. 50) 50 ''capital of France'' ?docs Study (RAG_PLUS_WEB, False)"
  proof
    assume w: "decide (\<lambda>q docs. 50) 50 ''capital of France'' ?docs Study (RAG_PLUS_WEB, False)"
    from u obtain d c
      where "\<forall>d' c'. decide (\<lambda>q docs. 50) 50 ''capital of France'' ?docs Study (d', c')
                \<longrightarrow> d' = d \<and> c' = c"
      by blast
    with 1 w have "RAG_ONLY = d" and "RAG_PLUS_WEB = d" by blast+
    then show False by simp
  qed
  from relevance_gate_deterministic [of "\<lambda>q docs. 50" 50 "''capital of France''" ?none Research] e
  have 3: "decide (\<lambda>q docs. 50) 50 ''capital of France'' ?none Research (NO_CORPUS, False)"
    by blast
  from h e 1 2 3 show ?thesis by simp
qed

end
